theory Spec2Isabelle
  imports Main "HOL-Library.Word"
begin

unbundle bit_operations_syntax

section \<open>The message queue of a bus1 peer (queue.c)\<close>

text \<open>
  A queue node is a heap object that the queue and the sending transaction both point
  to, so the nodes live in an explicit store, a function from addresses to nodes.
  The rb-tree \<open>queue->messages\<close> is represented by its in-order sequence of node
  addresses: \<open>rb_prev\<close> and \<open>rb_next\<close> are the neighbours in that sequence and
  \<open>rb_erase\<close> deletes from it. The lock is not modelled: each operation is one
  critical section and runs as one step.
\<close>

type_synonym u64 = "64 word"
type_synonym node_ptr = nat

record bus1_queue_node =
  rb_linked :: bool             \<comment> \<open>\<open>!RB_EMPTY_NODE(&node->rb)\<close>\<close>
  timestamp_and_type :: u64
  sender :: u64                 \<comment> \<open>\<open>unsigned long sender\<close>\<close>
  ref :: int                    \<comment> \<open>\<open>struct kref ref\<close>\<close>

record bus1_queue =
  clock :: u64
  front :: "node_ptr option"    \<comment> \<open>\<open>queue->front\<close>, \<open>None\<close> for NULL\<close>
  messages :: "node_ptr list"   \<comment> \<open>\<open>queue->messages\<close>, in order\<close>
  wakeups :: nat                \<comment> \<open>calls of \<open>wake_up_interruptible(queue->waitq)\<close> so far\<close>
  nodes :: "node_ptr \<Rightarrow> bus1_queue_node"   \<comment> \<open>the memory of the nodes\<close>

subsection \<open>Helpers declared in queue.h\<close>

text \<open>
  queue.h is not among the sources. The constant \<open>BUS1_QUEUE_TYPE_MASK\<close> is the
  parameter \<open>tm\<close> of every definition that reads a timestamp; the inline helpers are
  written from the specification.
\<close>

text \<open>
  Modelled from the spec: \<open>bus1_queue_node_get_timestamp\<close> of queue.h is
  missing; \<open>timestamp_and_type\<close> is the timestamp combined with a type tag,
  and the tag is what \<open>BUS1_QUEUE_TYPE_MASK\<close> selects in
  \<open>bus1_queue_node_set_timestamp\<close>.
\<close>

definition bus1_queue_node_get_timestamp :: "u64 \<Rightarrow> bus1_queue_node \<Rightarrow> u64" where
  "bus1_queue_node_get_timestamp tm node = timestamp_and_type node AND NOT tm"

text \<open>
  Modelled from the spec: \<open>bus1_queue_node_is_staging\<close> of queue.h is
  missing; the least-significant bit of the timestamp is the stage flag, set = staging.
\<close>

definition bus1_queue_node_is_staging :: "u64 \<Rightarrow> bus1_queue_node \<Rightarrow> bool" where
  "bus1_queue_node_is_staging tm node = (bus1_queue_node_get_timestamp tm node AND 1 \<noteq> 0)"

text \<open>
  Modelled from the spec: \<open>bus1_queue_node_is_queued\<close> of queue.h is
  missing; a node is queued when it is currently linked.
\<close>

definition bus1_queue_node_is_queued :: "bus1_queue \<Rightarrow> node_ptr \<Rightarrow> bool" where
  "bus1_queue_node_is_queued q node = rb_linked (nodes q node)"

text \<open>
  Modelled from the spec: \<open>bus1_queue_compare\<close> of queue.h is missing; total
  order on (timestamp, sender), timestamp ascending, then sender ascending.
\<close>

definition bus1_queue_compare :: "u64 \<Rightarrow> u64 \<Rightarrow> u64 \<Rightarrow> u64 \<Rightarrow> int" where
  "bus1_queue_compare a_ts a_sender b_ts b_sender =
     (if a_ts < b_ts then - 1
      else if b_ts < a_ts then 1
      else if a_sender < b_sender then - 1
      else if b_sender < a_sender then 1
      else 0)"

text \<open>
  Modelled from the spec: \<open>bus1_queue_is_readable\<close> of queue.h is missing; a queue
  is readable exactly when \<open>front\<close> is not null.
\<close>

definition bus1_queue_is_readable :: "bus1_queue \<Rightarrow> bool" where
  "bus1_queue_is_readable q = (front q \<noteq> None)"

text \<open>
  Modelled from the spec: \<open>bus1_queue_tick\<close> of queue.h is missing; \<open>tick\<close>
  increments the clock by 2 and returns the new value. The clock is a u64, so the
  addition wraps.
\<close>

definition bus1_queue_tick :: "bus1_queue \<Rightarrow> u64 \<times> bus1_queue" where
  "bus1_queue_tick q = (clock q + 2, q\<lparr>clock := clock q + 2\<rparr>)"

text \<open>
  Modelled from the spec: \<open>bus1_queue_sync\<close> of queue.h is missing;
  \<open>sync(at_least)\<close> sets the clock to the maximum of the clock and \<open>at_least\<close>
  rounded up to even, and returns the clock.
\<close>

definition bus1_queue_sync :: "bus1_queue \<Rightarrow> u64 \<Rightarrow> u64 \<times> bus1_queue" where
  "bus1_queue_sync q timestamp =
     (let c = max (clock q) (timestamp + (timestamp AND 1))
      in (c, q\<lparr>clock := c\<rparr>))"

subsection \<open>The rb-tree, by its in-order sequence\<close>

fun rb_prev :: "node_ptr list \<Rightarrow> node_ptr \<Rightarrow> node_ptr option" where
  "rb_prev (x # y # ms) n = (if x = n then None
                             else if y = n then Some x else rb_prev (y # ms) n)"
| "rb_prev ms n = None"

fun rb_next :: "node_ptr list \<Rightarrow> node_ptr \<Rightarrow> node_ptr option" where
  "rb_next (x # y # ms) n = (if x = n then Some y else rb_next (y # ms) n)"
| "rb_next ms n = None"

definition rb_erase :: "node_ptr \<Rightarrow> node_ptr list \<Rightarrow> node_ptr list" where
  "rb_erase n ms = remove1 n ms"

subsection \<open>queue.c\<close>

definition bus1_queue_node_set_timestamp :: "u64 \<Rightarrow> bus1_queue_node \<Rightarrow> u64 \<Rightarrow> bus1_queue_node" where
  \<comment> \<open>\<open>WARN_ON(ts & BUS1_QUEUE_TYPE_MASK)\<close> only reports; the two assignments run anyway.\<close>
  "bus1_queue_node_set_timestamp tm node ts =
     node\<lparr>timestamp_and_type := (timestamp_and_type node AND tm) OR ts\<rparr>"

definition bus1_queue_node_compare :: "u64 \<Rightarrow> bus1_queue_node \<Rightarrow> u64 \<Rightarrow> u64 \<Rightarrow> int" where
  "bus1_queue_node_compare tm node timestamp sndr =
     bus1_queue_compare (bus1_queue_node_get_timestamp tm node) (sender node) timestamp sndr"

definition bus1_queue_init :: "(node_ptr \<Rightarrow> bus1_queue_node) \<Rightarrow> bus1_queue" where
  "bus1_queue_init mem = \<lparr>clock = 0, front = None, messages = [], wakeups = 0, nodes = mem\<rparr>"

definition kref_get :: "bus1_queue_node \<Rightarrow> bus1_queue_node" where
  "kref_get node = node\<lparr>ref := ref node + 1\<rparr>"

definition kref_put :: "bus1_queue_node \<Rightarrow> bus1_queue_node" where
  \<comment> \<open>the release callback \<open>bus1_queue_node_no_free\<close> only warns\<close>
  "kref_put node = node\<lparr>ref := ref node - 1\<rparr>"

text \<open>
  \<open>bus1_queue_flush\<close>: the loop over the tree. A staging node is unlinked and loses the
  queue's reference; a committed node is put at the head of the caller's list
  (\<open>list_add\<close>), its linkage and reference untouched. The source walks the tree in
  post-order and promises no particular order; the sequence here is walked front to back.
\<close>

fun flush_nodes :: "u64 \<Rightarrow> node_ptr list \<Rightarrow> (node_ptr \<Rightarrow> bus1_queue_node) \<Rightarrow> node_ptr list
    \<Rightarrow> (node_ptr \<Rightarrow> bus1_queue_node) \<times> node_ptr list" where
  "flush_nodes tm [] mem l = (mem, l)"
| "flush_nodes tm (n # ns) mem l =
     (if bus1_queue_node_is_staging tm (mem n)
      then flush_nodes tm ns (mem(n := kref_put ((mem n)\<lparr>rb_linked := False\<rparr>))) l
      else flush_nodes tm ns mem (n # l))"

definition bus1_queue_flush :: "u64 \<Rightarrow> bus1_queue \<Rightarrow> node_ptr list \<Rightarrow> bus1_queue \<times> node_ptr list" where
  "bus1_queue_flush tm q l =
     (let (mem, l') = flush_nodes tm (messages q) (nodes q) l
      in (q\<lparr>nodes := mem, messages := [], front := None\<rparr>, l'))"

text \<open>
  The descent of \<open>bus1_queue_add\<close> through the tree goes left where the node compares
  less than the entry and right otherwise. In a search tree that ends directly before
  the first entry, in order, that the node compares less than, and \<open>is_leftmost\<close> stays
  true exactly when the node compares less than the first entry.
\<close>

fun rb_insert :: "u64 \<Rightarrow> (node_ptr \<Rightarrow> bus1_queue_node) \<Rightarrow> node_ptr \<Rightarrow> node_ptr list \<Rightarrow> node_ptr list" where
  "rb_insert tm mem node [] = [node]"
| "rb_insert tm mem node (i # ms) =
     (if bus1_queue_node_compare tm (mem node)
           (bus1_queue_node_get_timestamp tm (mem i)) (sender (mem i)) < 0
      then node # i # ms
      else i # rb_insert tm mem node ms)"

definition is_leftmost :: "u64 \<Rightarrow> (node_ptr \<Rightarrow> bus1_queue_node) \<Rightarrow> node_ptr \<Rightarrow> node_ptr list \<Rightarrow> bool" where
  "is_leftmost tm mem node ms =
     (case ms of [] \<Rightarrow> True
      | i # _ \<Rightarrow> bus1_queue_node_compare tm (mem node)
                   (bus1_queue_node_get_timestamp tm (mem i)) (sender (mem i)) < 0)"

definition add_uncover :: "u64 \<Rightarrow> bus1_queue \<Rightarrow> node_ptr \<Rightarrow> u64 \<Rightarrow> bus1_queue" where
  \<comment> \<open>lines 187-212: the front that re-stamping the first entry may uncover\<close>
  "add_uncover tm q node timestamp =
     (case front q of
        Some f \<Rightarrow> q
      | None \<Rightarrow>
          if rb_linked (nodes q node) \<and> rb_prev (messages q) node = None then
            (case rb_next (messages q) node of
               None \<Rightarrow> q
             | Some n \<Rightarrow>
                 if \<not> bus1_queue_node_is_staging tm (nodes q n) \<and>
                    bus1_queue_node_compare tm (nodes q n) timestamp (sender (nodes q node)) < 0
                 then q\<lparr>front := Some n\<rparr>
                 else q)
          else q)"

definition add_link :: "u64 \<Rightarrow> bus1_queue \<Rightarrow> node_ptr \<Rightarrow> u64 \<Rightarrow> bus1_queue" where
  \<comment> \<open>lines 214-244: take the reference or erase, stamp, insert, mark as front\<close>
  "add_link tm q node timestamp =
     (let n0 = nodes q node;
          ms = (if \<not> rb_linked n0 then messages q else rb_erase node (messages q));
          n1 = (if \<not> rb_linked n0 then kref_get n0 else n0);
          n2 = (bus1_queue_node_set_timestamp tm n1 timestamp)\<lparr>rb_linked := True\<rparr>;
          mem = (nodes q)(node := n2);
          leftmost = is_leftmost tm mem node ms;
          q1 = q\<lparr>nodes := mem, messages := rb_insert tm mem node ms\<rparr>
      in if timestamp AND 1 = 0 \<and> leftmost then q1\<lparr>front := Some node\<rparr> else q1)"

definition wake_if_readable :: "bool \<Rightarrow> bus1_queue \<Rightarrow> bus1_queue" where
  "wake_if_readable readable q =
     (if \<not> readable \<and> bus1_queue_is_readable q then q\<lparr>wakeups := wakeups q + 1\<rparr> else q)"

definition bus1_queue_add :: "u64 \<Rightarrow> bus1_queue \<Rightarrow> node_ptr \<Rightarrow> u64 \<Rightarrow> bus1_queue" where
  "bus1_queue_add tm q node timestamp =
     (let ts = bus1_queue_node_get_timestamp tm (nodes q node);
          readable = bus1_queue_is_readable q
      in if timestamp = 0 \<or> clock q + 1 < timestamp then q
         else if (ts = 0) = rb_linked (nodes q node) then q
         else if ts \<noteq> 0 \<and> (ts AND 1 = 0 \<or> timestamp < ts) then q
         else if ts = timestamp then q
         else wake_if_readable readable
                (add_link tm (add_uncover tm q node timestamp) node timestamp))"

definition bus1_queue_stage :: "u64 \<Rightarrow> bus1_queue \<Rightarrow> node_ptr \<Rightarrow> u64 \<Rightarrow> u64 \<times> bus1_queue" where
  "bus1_queue_stage tm q node timestamp =
     (let (ts, q1) = bus1_queue_sync q timestamp
      in (ts, bus1_queue_add tm q1 node (ts + 1)))"

definition bus1_queue_commit_staged :: "u64 \<Rightarrow> bus1_queue \<Rightarrow> node_ptr \<Rightarrow> u64 \<Rightarrow> bool \<times> bus1_queue" where
  "bus1_queue_commit_staged tm q node timestamp =
     (let committed = bus1_queue_node_is_queued q node
      in (committed, if committed then bus1_queue_add tm q node timestamp else q))"

definition bus1_queue_commit_unstaged :: "u64 \<Rightarrow> bus1_queue \<Rightarrow> node_ptr \<Rightarrow> bus1_queue" where
  "bus1_queue_commit_unstaged tm q node =
     (if \<not> bus1_queue_node_is_queued q node
      then (let (ts, q1) = bus1_queue_tick q in bus1_queue_add tm q1 node ts)
      else q)"

definition remove_front :: "u64 \<Rightarrow> bus1_queue \<Rightarrow> node_ptr \<Rightarrow> node_ptr option" where
  \<comment> \<open>lines 391-396: the entry after the first one, unless it is staging\<close>
  "remove_front tm q node =
     (case rb_next (messages q) node of
        None \<Rightarrow> None
      | Some n \<Rightarrow> if bus1_queue_node_is_staging tm (nodes q n) then None else Some n)"

definition bus1_queue_remove :: "u64 \<Rightarrow> bus1_queue \<Rightarrow> node_ptr option \<Rightarrow> bool \<times> bus1_queue" where
  "bus1_queue_remove tm q nodep =
     (case nodep of
        None \<Rightarrow> (False, q)
      | Some node \<Rightarrow>
          if \<not> rb_linked (nodes q node) then (False, q)
          else
            let readable = bus1_queue_is_readable q;
                q1 = (if rb_prev (messages q) node = None
                      then q\<lparr>front := remove_front tm q node\<rparr> else q);
                q2 = q1\<lparr>messages := rb_erase node (messages q1),
                        nodes := (nodes q1)(node := kref_put ((nodes q1 node)\<lparr>rb_linked := False\<rparr>))\<rparr>
            in (True, wake_if_readable readable q2))"

definition bus1_queue_peek_locked :: "u64 \<Rightarrow> bus1_queue \<Rightarrow> (node_ptr \<times> bool) option \<times> bus1_queue" where
  \<comment> \<open>the result is the node with what was stored in \<open>*continuep\<close>; nothing is stored
      there when NULL is returned\<close>
  "bus1_queue_peek_locked tm q =
     (case front q of
        None \<Rightarrow> (None, q)
      | Some node \<Rightarrow>
          let q1 = q\<lparr>nodes := (nodes q)(node := kref_get (nodes q node))\<rparr>;
              continuep =
                (case rb_next (messages q) node of
                   None \<Rightarrow> False
                 | Some next \<Rightarrow>
                     bus1_queue_node_compare tm (nodes q1 node)
                       (bus1_queue_node_get_timestamp tm (nodes q1 next))
                       (sender (nodes q1 next)) = 0)
          in (Some (node, continuep), q1))"

section \<open>The peer (peer.c)\<close>

datatype errno = EINVAL | ENOMEM | ESHUTDOWN | EISCONN | ENOTCONN | EMSGSIZE | EFAULT
  | Oops   \<comment> \<open>a NULL pointer dereference: the source does not return from it\<close>

text \<open>
  The constants of \<open>uapi/linux/bus1.h\<close> and of the kernel headers are not among the
  sources; they are the fields of a parameter.
\<close>

record kconsts =
  BUS1_CONNECT_FLAG_CLIENT :: u64
  BUS1_CONNECT_FLAG_MONITOR :: u64
  BUS1_CONNECT_FLAG_QUERY :: u64
  BUS1_CONNECT_FLAG_RESET :: u64
  BUS1_SEND_FLAG_CONTINUE :: u64
  BUS1_SEND_FLAG_SILENT :: u64
  BUS1_SEND_FLAG_RELEASE :: u64
  BUS1_VEC_MAX :: u64
  BUS1_FD_MAX :: u64
  PAGE_SIZE :: u64
  BITS_PER_LONG :: nat
  BUS1_QUEUE_TYPE_MASK :: u64

record bus1_cmd_connect =
  flags :: u64
  pool_size :: u64

record bus1_cmd_send =
  send_flags :: u64
  ptr_destinations :: u64
  n_destinations :: u64
  ptr_vecs :: u64
  n_vecs :: u64
  ptr_handles :: u64
  n_handles :: u64
  ptr_fds :: u64
  n_fds :: u64

record bus1_pool =
  pool_bytes :: u64                 \<comment> \<open>\<open>pool->size\<close>\<close>
  slices :: "node_ptr list"         \<comment> \<open>the slices in use, each named by the message that owns it\<close>

record bus1_peer_info =
  pool :: bus1_pool
  queue :: bus1_queue
  freed :: "node_ptr list"          \<comment> \<open>messages handed to \<open>bus1_message_free\<close>\<close>

datatype bus1_active = ACTIVE_NEW | ACTIVE_LIVE | ACTIVE_DEACTIVATED

record bus1_peer =
  active :: bus1_active
  info :: "bus1_peer_info option"   \<comment> \<open>\<open>peer->info\<close>, \<open>None\<close> for NULL\<close>

text \<open>What the kernel and the other files of bus1 decide for one call of connect.\<close>

record connect_env =
  kmalloc_fails :: bool
  user_ref_by_uid :: "errno option"          \<comment> \<open>the error of \<open>bus1_user_ref_by_uid\<close>, if any\<close>
  pool_create_for_peer :: "u64 \<Rightarrow> errno option" \<comment> \<open>the error of \<open>bus1_pool_create_for_peer\<close>, if any\<close>
  memory :: "node_ptr \<Rightarrow> bus1_queue_node"

text \<open>
  Modelled from the spec: \<open>bus1_active_is_new\<close> of active.h is missing; a peer is
  new, connected or shutdown.
\<close>

definition bus1_active_is_new :: "bus1_active \<Rightarrow> bool" where
  "bus1_active_is_new a = (a = ACTIVE_NEW)"

text \<open>
  Modelled from the spec: \<open>bus1_active_is_deactivated\<close> of active.h is missing;
  shutdown is the deactivated state.
\<close>

definition bus1_active_is_deactivated :: "bus1_active \<Rightarrow> bool" where
  "bus1_active_is_deactivated a = (a = ACTIVE_DEACTIVATED)"

text \<open>
  Modelled from the spec: \<open>bus1_active_activate\<close> of active.h is missing; the
  transition from new to connected, one attempt, which fails from any other state.
\<close>

definition bus1_active_activate :: "bus1_active \<Rightarrow> bool \<times> bus1_active" where
  "bus1_active_activate a = (if a = ACTIVE_NEW then (True, ACTIVE_LIVE) else (False, a))"

text \<open>
  Modelled from the spec: \<open>bus1_peer_acquire\<close> of peer.h is missing; an active
  reference is granted to a connected peer only. \<open>bus1_peer_dereference\<close> reads
  \<open>peer->info\<close> and \<open>bus1_peer_release\<close> gives the reference back.
\<close>

definition bus1_peer_acquire :: "bus1_peer \<Rightarrow> bool" where
  "bus1_peer_acquire peer = (active peer = ACTIVE_LIVE)"

definition IS_ALIGNED :: "u64 \<Rightarrow> u64 \<Rightarrow> bool" where
  \<comment> \<open>the kernel's macro: \<open>((x) & ((a) - 1)) == 0\<close>\<close>
  "IS_ALIGNED x a = (x AND (a - 1) = 0)"

text \<open>
  Modelled from the spec: \<open>bus1_queue_node_is_committed\<close> of queue.h is
  missing; a node is committed when its stage flag is clear.
\<close>

definition bus1_queue_node_is_committed :: "u64 \<Rightarrow> bus1_queue_node \<Rightarrow> bool" where
  "bus1_queue_node_is_committed tm node = (\<not> bus1_queue_node_is_staging tm node)"

text \<open>
  Modelled from the spec: \<open>bus1_queue_post_flush\<close> of queue.h is missing; a
  flush ends with \<open>messages\<close> empty and \<open>front\<close> null.
\<close>

definition bus1_queue_post_flush :: "bus1_queue \<Rightarrow> bus1_queue" where
  "bus1_queue_post_flush q = q\<lparr>messages := [], front := None\<rparr>"

text \<open>
  Modelled from the spec: \<open>bus1_pool_flush\<close> of pool.c is missing; a reset leaves
  the pool empty and its size as it was.
\<close>

definition bus1_pool_flush :: "bus1_pool \<Rightarrow> bus1_pool" where
  "bus1_pool_flush p = p\<lparr>slices := []\<rparr>"

text \<open>
  The loop of \<open>bus1_peer_info_reset\<close>. Modelled from the spec:
  \<open>bus1_message_deallocate_locked\<close> and \<open>bus1_message_free\<close> of message.c are
  missing; a reset deallocates the slice of each committed message, and the message is
  freed.
\<close>

fun reset_nodes :: "u64 \<Rightarrow> node_ptr list \<Rightarrow> bus1_peer_info \<Rightarrow> bus1_peer_info" where
  "reset_nodes tm [] pi = pi"
| "reset_nodes tm (n # ns) pi =
     (let q = queue pi;
          unlinked = (nodes q n)\<lparr>rb_linked := False\<rparr>;
          pi1 = pi\<lparr>queue := q\<lparr>nodes := (nodes q)(n := unlinked)\<rparr>\<rparr>;
          pi2 = (if bus1_queue_node_is_committed tm unlinked
                 then pi1\<lparr>pool := (pool pi1)\<lparr>slices := removeAll n (slices (pool pi1))\<rparr>,
                          freed := n # freed pi1\<rparr>
                 else pi1)
      in reset_nodes tm ns pi2)"

definition bus1_peer_info_reset :: "u64 \<Rightarrow> bus1_peer_info \<Rightarrow> bus1_peer_info" where
  "bus1_peer_info_reset tm pi =
     (let pi1 = reset_nodes tm (messages (queue pi)) pi;
          pi2 = pi1\<lparr>queue := bus1_queue_post_flush (queue pi1)\<rparr>
      in pi2\<lparr>pool := bus1_pool_flush (pool pi2)\<rparr>)"

definition bus1_peer_info_new :: "kconsts \<Rightarrow> connect_env \<Rightarrow> bus1_cmd_connect \<Rightarrow> errno + bus1_peer_info" where
  "bus1_peer_info_new k env param =
     (if pool_size param = 0 \<or> \<not> IS_ALIGNED (pool_size param) (PAGE_SIZE k) then Inl EINVAL
      else if kmalloc_fails env then Inl ENOMEM
      else case user_ref_by_uid env of
             Some r \<Rightarrow> Inl r
           | None \<Rightarrow>
               (case pool_create_for_peer env (pool_size param) of
                  Some r \<Rightarrow> Inl r
                | None \<Rightarrow> Inr \<lparr>pool = \<lparr>pool_bytes = pool_size param, slices = []\<rparr>,
                                queue = bus1_queue_init (memory env), freed = []\<rparr>))"

definition bus1_peer_connect_new ::
    "kconsts \<Rightarrow> connect_env \<Rightarrow> bus1_peer \<Rightarrow> bus1_cmd_connect \<Rightarrow> errno + bus1_peer \<times> bus1_cmd_connect" where
  "bus1_peer_connect_new k env peer param =
     (case bus1_peer_info_new k env param of
        Inl r \<Rightarrow> Inl r
      | Inr peer_info \<Rightarrow>
          if bus1_active_is_deactivated (active peer) then Inl ESHUTDOWN
          else if info peer \<noteq> None then Inl EISCONN
          else (case bus1_active_activate (active peer) of
                  (True, a) \<Rightarrow> Inr (peer\<lparr>info := Some peer_info, active := a\<rparr>, param)
                | (False, a) \<Rightarrow> Inl ESHUTDOWN))"

definition bus1_peer_connect_reset ::
    "kconsts \<Rightarrow> bus1_peer \<Rightarrow> bus1_cmd_connect \<Rightarrow> errno + bus1_peer \<times> bus1_cmd_connect" where
  "bus1_peer_connect_reset k peer param =
     (if bus1_active_is_new (active peer) then Inl ENOTCONN
      else if pool_size param \<noteq> 0 then Inl EINVAL
      else if \<not> bus1_peer_acquire peer then Inl ESHUTDOWN
      else case info peer of
             None \<Rightarrow> Inl Oops
           | Some peer_info \<Rightarrow>
               Inr (peer\<lparr>info := Some (bus1_peer_info_reset (BUS1_QUEUE_TYPE_MASK k) peer_info)\<rparr>,
                    param\<lparr>pool_size := pool_bytes (pool peer_info)\<rparr>))"

definition bus1_peer_connect_query ::
    "bus1_peer \<Rightarrow> bus1_cmd_connect \<Rightarrow> errno + bus1_peer \<times> bus1_cmd_connect" where
  "bus1_peer_connect_query peer param =
     (if bus1_active_is_new (active peer) then Inl ENOTCONN
      else if pool_size param \<noteq> 0 then Inl EINVAL
      else case info peer of
             Some peer_info \<Rightarrow> Inr (peer, param\<lparr>pool_size := pool_bytes (pool peer_info)\<rparr>)
           | None \<Rightarrow> Inl ESHUTDOWN)"

definition named :: "u64 \<Rightarrow> u64 \<Rightarrow> nat" where
  \<comment> \<open>\<open>!!(flags & flag)\<close>\<close>
  "named fl flag = (if fl AND flag \<noteq> 0 then 1 else 0)"

definition bus1_peer_connect ::
    "kconsts \<Rightarrow> connect_env \<Rightarrow> bus1_peer \<Rightarrow> bus1_cmd_connect \<Rightarrow> errno + bus1_peer \<times> bus1_cmd_connect" where
  "bus1_peer_connect k env peer param =
     (if flags param AND NOT (BUS1_CONNECT_FLAG_CLIENT k OR BUS1_CONNECT_FLAG_QUERY k OR
                              BUS1_CONNECT_FLAG_RESET k) \<noteq> 0 then Inl EINVAL
      else if 1 < named (flags param) (BUS1_CONNECT_FLAG_CLIENT k) +
                  named (flags param) (BUS1_CONNECT_FLAG_MONITOR k) +
                  named (flags param) (BUS1_CONNECT_FLAG_RESET k) then Inl EINVAL
      else if flags param AND (BUS1_CONNECT_FLAG_CLIENT k OR BUS1_CONNECT_FLAG_MONITOR k) \<noteq> 0
        then bus1_peer_connect_new k env peer param
      else if flags param AND BUS1_CONNECT_FLAG_RESET k \<noteq> 0
        then bus1_peer_connect_reset k peer param
      else if flags param AND BUS1_CONNECT_FLAG_QUERY k \<noteq> 0
        then bus1_peer_connect_query peer param
      else Inl EINVAL)"

subsection \<open>Send\<close>

text \<open>
  \<open>bus1_peer_ioctl_send\<close> works on the transaction layer (transaction.c) and on user
  memory, neither of which is among the sources. They are parameters: \<open>'s\<close> is the state
  they work on (the queues of all destinations), \<open>'t\<close> a transaction.
\<close>

record ('s, 't) send_env =
  import_fixed_ioctl :: "u64 \<Rightarrow> errno + bus1_cmd_send"
  transaction_new_from_user :: "'s \<Rightarrow> bus1_cmd_send \<Rightarrow> (errno + 't) \<times> 's"
  get_user :: "u64 \<Rightarrow> nat \<Rightarrow> u64 option"      \<comment> \<open>\<open>get_user(destination, ptr_dest + i)\<close>, \<open>None\<close> on a fault\<close>
  transaction_commit_for_id :: "'t \<Rightarrow> u64 \<Rightarrow> 's \<Rightarrow> (errno + unit) \<times> 's"
  transaction_instantiate_for_id :: "'t \<Rightarrow> u64 \<Rightarrow> 's \<Rightarrow> (errno + 't) \<times> 's"
  transaction_commit :: "'t \<Rightarrow> 's \<Rightarrow> 's"
  transaction_free :: "'t \<Rightarrow> 's \<Rightarrow> 's"

definition as_ulong :: "kconsts \<Rightarrow> u64 \<Rightarrow> u64" where
  \<comment> \<open>\<open>(u64)(unsigned long)x\<close>\<close>
  "as_ulong k x = take_bit (BITS_PER_LONG k) x"

fun instantiate_all :: "('s, 't) send_env \<Rightarrow> u64 \<Rightarrow> nat list \<Rightarrow> 't \<Rightarrow> 's \<Rightarrow> (errno + 't) \<times> 's" where
  \<comment> \<open>the loop of the slow path, over the indices \<open>0 .. n_destinations - 1\<close>\<close>
  "instantiate_all env ptr_dest [] t s = (Inr t, s)"
| "instantiate_all env ptr_dest (i # is) t s =
     (case get_user env ptr_dest i of
        None \<Rightarrow> (Inl EFAULT, transaction_free env t s)
      | Some destination \<Rightarrow>
          (case transaction_instantiate_for_id env t destination s of
             (Inl r, s1) \<Rightarrow> (Inl r, transaction_free env t s1)
           | (Inr t1, s1) \<Rightarrow> instantiate_all env ptr_dest is t1 s1))"

definition bus1_peer_ioctl_send ::
    "kconsts \<Rightarrow> ('s, 't) send_env \<Rightarrow> 's \<Rightarrow> u64 \<Rightarrow> (errno + unit) \<times> 's" where
  "bus1_peer_ioctl_send k env s arg =
     (case import_fixed_ioctl env arg of
        Inl r \<Rightarrow> (Inl r, s)
      | Inr param \<Rightarrow>
          if send_flags param AND NOT (BUS1_SEND_FLAG_CONTINUE k OR BUS1_SEND_FLAG_SILENT k OR
                                       BUS1_SEND_FLAG_RELEASE k) \<noteq> 0 then (Inl EINVAL, s)
          else if BUS1_VEC_MAX k < n_vecs param \<or> BUS1_FD_MAX k < n_fds param
            then (Inl EMSGSIZE, s)
          else if ptr_destinations param \<noteq> as_ulong k (ptr_destinations param) \<or>
                  ptr_vecs param \<noteq> as_ulong k (ptr_vecs param) \<or>
                  ptr_handles param \<noteq> as_ulong k (ptr_handles param) \<or>
                  ptr_fds param \<noteq> as_ulong k (ptr_fds param) then (Inl EFAULT, s)
          else
            (case transaction_new_from_user env s param of
               (Inl r, s1) \<Rightarrow> (Inl r, s1)
             | (Inr t, s1) \<Rightarrow>
                 if n_destinations param = 1 then
                   (case get_user env (ptr_destinations param) 0 of
                      None \<Rightarrow> (Inl EFAULT, transaction_free env t s1)
                    | Some destination \<Rightarrow>
                        (case transaction_commit_for_id env t destination s1 of
                           (r, s2) \<Rightarrow> (r, transaction_free env t s2)))
                 else
                   (case instantiate_all env (ptr_destinations param)
                           [0 ..< unat (n_destinations param)] t s1 of
                      (Inl r, s2) \<Rightarrow> (Inl r, s2)
                    | (Inr t1, s2) \<Rightarrow>
                        (Inr (), transaction_free env t1 (transaction_commit env t1 s2)))))"

section \<open>Invariants of the queue\<close>

definition node_less :: "u64 \<Rightarrow> (node_ptr \<Rightarrow> bus1_queue_node) \<Rightarrow> node_ptr \<Rightarrow> node_ptr \<Rightarrow> bool" where
  \<comment> \<open>node \<open>a\<close> orders before node \<open>b\<close>, as the descent of \<open>bus1_queue_add\<close> compares them\<close>
  "node_less tm mem a b =
     (bus1_queue_node_compare tm (mem a) (bus1_queue_node_get_timestamp tm (mem b)) (sender (mem b)) < 0)"

definition queue_sorted :: "u64 \<Rightarrow> bus1_queue \<Rightarrow> bool" where
  \<comment> \<open>the tree is a search tree: no entry orders before an earlier one\<close>
  "queue_sorted tm q = sorted_wrt (\<lambda>a b. \<not> node_less tm (nodes q) b a) (messages q)"

definition expected_front :: "u64 \<Rightarrow> (node_ptr \<Rightarrow> bus1_queue_node) \<Rightarrow> node_ptr list \<Rightarrow> node_ptr option" where
  \<comment> \<open>the first entry of the tree if that entry is committed; NULL if it is staging or
      the tree is empty\<close>
  "expected_front tm mem ms =
     (case ms of
        [] \<Rightarrow> None
      | n # _ \<Rightarrow> if bus1_queue_node_is_staging tm (mem n) then None else Some n)"

definition front_inv :: "u64 \<Rightarrow> bus1_queue \<Rightarrow> bool" where
  "front_inv tm q = (front q = expected_front tm (nodes q) (messages q))"

definition queue_wf :: "u64 \<Rightarrow> bus1_queue \<Rightarrow> bool" where
  \<comment> \<open>the tree holds each node once and in order, its nodes are linked, no timestamp in
      it is ahead of the clock by more than the stage bit, and the clock is even\<close>
  "queue_wf tm q =
     (distinct (messages q) \<and> queue_sorted tm q \<and>
      list_all (\<lambda>n. rb_linked (nodes q n) \<and>
                    unat (bus1_queue_node_get_timestamp tm (nodes q n)) \<le> unat (clock q) + 1)
        (messages q) \<and>
      clock q AND 1 = 0)"

definition node_known :: "bus1_queue \<Rightarrow> node_ptr \<Rightarrow> bool" where
  \<comment> \<open>a node that is linked is linked into this queue\<close>
  "node_known q node = (if rb_linked (nodes q node) then node \<in> set (messages q) else True)"

definition no_twin_next :: "u64 \<Rightarrow> bus1_queue \<Rightarrow> node_ptr \<Rightarrow> u64 \<Rightarrow> bool" where
  \<comment> \<open>the entry that follows the node in the tree does not carry the timestamp \<open>ts\<close>
      together with the node's sender\<close>
  "no_twin_next tm q node ts =
     (case rb_next (messages q) node of
        None \<Rightarrow> True
      | Some n \<Rightarrow> bus1_queue_node_compare tm (nodes q n) ts (sender (nodes q node)) \<noteq> 0)"

section \<open>Sequences of queue operations\<close>

datatype queue_op =
    Stage node_ptr u64
  | Commit_staged node_ptr u64
  | Commit_unstaged node_ptr
  | Remove "node_ptr option"
  | Flush
  | Sync u64

fun apply_op :: "u64 \<Rightarrow> bus1_queue \<Rightarrow> queue_op \<Rightarrow> bus1_queue" where
  "apply_op tm q (Stage node ts) = snd (bus1_queue_stage tm q node ts)"
| "apply_op tm q (Commit_staged node ts) = snd (bus1_queue_commit_staged tm q node ts)"
| "apply_op tm q (Commit_unstaged node) = bus1_queue_commit_unstaged tm q node"
| "apply_op tm q (Remove nodep) = snd (bus1_queue_remove tm q nodep)"
| "apply_op tm q Flush = fst (bus1_queue_flush tm q [])"
| "apply_op tm q (Sync ts) = snd (bus1_queue_sync q ts)"

fun run_ops :: "u64 \<Rightarrow> bus1_queue \<Rightarrow> queue_op list \<Rightarrow> bus1_queue" where
  "run_ops tm q [] = q"
| "run_ops tm q (op # ops) = run_ops tm (apply_op tm q op) ops"

text \<open>
  The timestamp an operation hands to \<open>bus1_queue_add\<close> has no bit in the type mask:
  the condition that \<open>WARN_ON(ts & BUS1_QUEUE_TYPE_MASK)\<close> of
  \<open>bus1_queue_node_set_timestamp\<close> reports the failure of.
\<close>

fun op_fits :: "u64 \<Rightarrow> bus1_queue \<Rightarrow> queue_op \<Rightarrow> bool" where
  "op_fits tm q (Stage node ts) = ((fst (bus1_queue_sync q ts) + 1) AND tm = 0)"
| "op_fits tm q (Commit_staged node ts) = (ts AND tm = 0)"
| "op_fits tm q (Commit_unstaged node) = (fst (bus1_queue_tick q) AND tm = 0)"
| "op_fits tm q _ = True"


text \<open>
  The use of an operation that the source documents: a node is staged when it is not
  linked, committed with an even timestamp, and handed to the queue it is linked into;
  the clock does not wrap around. \<open>no_twin_next\<close> is the one further condition under
  which \<open>bus1_queue_add\<close> keeps \<open>front\<close> right.
\<close>

fun op_ok :: "u64 \<Rightarrow> bus1_queue \<Rightarrow> queue_op \<Rightarrow> bool" where
  "op_ok tm q (Stage node ts) =
     (op_fits tm q (Stage node ts) \<and> \<not> rb_linked (nodes q node))"
| "op_ok tm q (Commit_staged node ts) =
     (ts AND tm = 0 \<and> ts AND 1 = 0 \<and> node_known q node \<and> no_twin_next tm q node ts)"
| "op_ok tm q (Commit_unstaged node) =
     (op_fits tm q (Commit_unstaged node) \<and> unat (clock q) + 2 < 2 ^ 64)"
| "op_ok tm q (Remove nodep) = (case nodep of None \<Rightarrow> True | Some node \<Rightarrow> node_known q node)"
| "op_ok tm q Flush = True"
| "op_ok tm q (Sync ts) = True"

fun ops_ok :: "u64 \<Rightarrow> bus1_queue \<Rightarrow> queue_op list \<Rightarrow> bool" where
  "ops_ok tm q [] = True"
| "ops_ok tm q (op # ops) = (op_ok tm q op \<and> ops_ok tm (apply_op tm q op) ops)"

section \<open>Example configurations\<close>

text \<open>
  Concrete inputs, used where a property is evaluated. In the node memory \<open>ex_mem\<close>
  every node is fresh: unlinked, unstamped, one reference held by its transaction; node 3
  is sent by peer 5, every other node by peer 7.
\<close>

definition ex_mem :: "node_ptr \<Rightarrow> bus1_queue_node" where
  "ex_mem p = \<lparr>rb_linked = False, timestamp_and_type = 0,
               sender = (if p = 3 then 5 else 7), ref = 1\<rparr>"

definition ex_consts :: kconsts where
  "ex_consts = \<lparr>BUS1_CONNECT_FLAG_CLIENT = 1, BUS1_CONNECT_FLAG_MONITOR = 2,
     BUS1_CONNECT_FLAG_QUERY = 4, BUS1_CONNECT_FLAG_RESET = 8,
     BUS1_SEND_FLAG_CONTINUE = 1, BUS1_SEND_FLAG_SILENT = 2, BUS1_SEND_FLAG_RELEASE = 4,
     BUS1_VEC_MAX = 512, BUS1_FD_MAX = 256, PAGE_SIZE = 4096, BITS_PER_LONG = 64,
     BUS1_QUEUE_TYPE_MASK = push_bit 62 3\<rparr>"

definition ex_tm :: u64 where
  "ex_tm = push_bit 62 3"

definition ex_env :: connect_env where
  "ex_env = \<lparr>kmalloc_fails = False, user_ref_by_uid = None,
             pool_create_for_peer = (\<lambda>_. None), memory = ex_mem\<rparr>"

definition ex_peer_new :: bus1_peer where
  "ex_peer_new = \<lparr>active = ACTIVE_NEW, info = None\<rparr>"

definition ex_info :: bus1_peer_info where
  "ex_info = \<lparr>pool = \<lparr>pool_bytes = 8192, slices = []\<rparr>,
              queue = bus1_queue_init ex_mem, freed = []\<rparr>"

definition ex_peer_live :: bus1_peer where
  "ex_peer_live = \<lparr>active = ACTIVE_LIVE, info = Some ex_info\<rparr>"

definition ex_send :: bus1_cmd_send where
  "ex_send = \<lparr>send_flags = 0, ptr_destinations = 4096, n_destinations = 1, ptr_vecs = 8192,
     n_vecs = 513, ptr_handles = 0, n_handles = 0, ptr_fds = 0, n_fds = 0\<rparr>"

definition ex_send_env :: "(unit, unit) send_env" where
  "ex_send_env = \<lparr>import_fixed_ioctl = (\<lambda>_. Inr ex_send),
     transaction_new_from_user = (\<lambda>s _. (Inr (), s)),
     get_user = (\<lambda>_ _. Some 1),
     transaction_commit_for_id = (\<lambda>_ _ s. (Inr (), s)),
     transaction_instantiate_for_id = (\<lambda>t _ s. (Inr t, s)),
     transaction_commit = (\<lambda>_ s. s),
     transaction_free = (\<lambda>_ s. s)\<rparr>"

text \<open>
  The states of two runs from the empty queue. In the first, one sender stages nodes 2
  and 4, the clock is synced to 2 and both nodes are committed at 2, node 4 first.
\<close>

definition ex_node :: "bool \<Rightarrow> u64 \<Rightarrow> u64 \<Rightarrow> int \<Rightarrow> bus1_queue_node" where
  "ex_node l ts s r = \<lparr>rb_linked = l, timestamp_and_type = ts, sender = s, ref = r\<rparr>"

definition ex_a1 :: bus1_queue where
  "ex_a1 = \<lparr>clock = 0, front = None, messages = [2], wakeups = 0,
            nodes = ex_mem(2 := ex_node True 1 7 2)\<rparr>"

definition ex_a2 :: bus1_queue where
  "ex_a2 = \<lparr>clock = 0, front = None, messages = [2, 4], wakeups = 0,
            nodes = ex_mem(2 := ex_node True 1 7 2, 4 := ex_node True 1 7 2)\<rparr>"

definition ex_a3 :: bus1_queue where
  "ex_a3 = \<lparr>clock = 2, front = None, messages = [2, 4], wakeups = 0,
            nodes = ex_mem(2 := ex_node True 1 7 2, 4 := ex_node True 1 7 2)\<rparr>"

definition ex_a4 :: bus1_queue where
  "ex_a4 = \<lparr>clock = 2, front = None, messages = [2, 4], wakeups = 0,
            nodes = ex_mem(2 := ex_node True 1 7 2, 4 := ex_node True 2 7 2)\<rparr>"

definition ex_a5 :: bus1_queue where
  "ex_a5 = \<lparr>clock = 2, front = None, messages = [4, 2], wakeups = 0,
            nodes = ex_mem(4 := ex_node True 2 7 2, 2 := ex_node True 2 7 2)\<rparr>"

text \<open>
  In the second, node 3 is committed without staging (at 2), then node 2 is staged with
  minimum 2 (at 3); \<open>ex_r1\<close> is \<open>ex_a1\<close> after node 2 has been removed again.
\<close>

definition ex_b1 :: bus1_queue where
  "ex_b1 = \<lparr>clock = 2, front = Some 3, messages = [3], wakeups = 1,
            nodes = ex_mem(3 := ex_node True 2 5 2)\<rparr>"

definition ex_b2 :: bus1_queue where
  "ex_b2 = \<lparr>clock = 2, front = Some 3, messages = [3, 2], wakeups = 1,
            nodes = ex_mem(3 := ex_node True 2 5 2, 2 := ex_node True 3 7 2)\<rparr>"

definition ex_r1 :: bus1_queue where
  "ex_r1 = \<lparr>clock = 0, front = None, messages = [], wakeups = 0,
            nodes = ex_mem(2 := ex_node False 1 7 1)\<rparr>"

text \<open>
  A third run, the stager that blocks the front: node 2 is staged (at 1), node 3 of
  another sender is committed without staging (at 2) and stays hidden behind it, the
  clock is synced to 4 and node 2 is committed at 4, which uncovers node 3.
\<close>

definition ex_s1 :: bus1_queue where
  "ex_s1 = \<lparr>clock = 2, front = None, messages = [2, 3], wakeups = 0,
            nodes = ex_mem(2 := ex_node True 1 7 2, 3 := ex_node True 2 5 2)\<rparr>"

definition ex_s2 :: bus1_queue where
  "ex_s2 = \<lparr>clock = 4, front = None, messages = [2, 3], wakeups = 0,
            nodes = ex_mem(2 := ex_node True 1 7 2, 3 := ex_node True 2 5 2)\<rparr>"

definition ex_s3 :: bus1_queue where
  "ex_s3 = \<lparr>clock = 4, front = Some 3, messages = [3, 2], wakeups = 1,
            nodes = ex_mem(2 := ex_node True 1 7 2, 3 := ex_node True 2 5 2,
                           2 := ex_node True 4 7 2)\<rparr>"




definition ex_u1 :: bus1_queue where
  "ex_u1 = \<lparr>clock = 4611686018427387904, front = None, messages = [4], wakeups = 0,
            nodes = ex_mem(4 := ex_node True 4611686018427387905 7 2)\<rparr>"

section \<open>Properties\<close>

subsection \<open>Timestamps, keys and the example queues\<close>

lemma bus1_queue_compare_eq_0:
  "bus1_queue_compare a s b t = 0 \<longleftrightarrow> a = b \<and> s = t"
  by (auto simp: bus1_queue_compare_def)

lemma get_timestamp_simps [simp]:
  "bus1_queue_node_get_timestamp tm (node\<lparr>rb_linked := b\<rparr>) = bus1_queue_node_get_timestamp tm node"
  "bus1_queue_node_get_timestamp tm (node\<lparr>ref := r\<rparr>) = bus1_queue_node_get_timestamp tm node"
  "bus1_queue_node_get_timestamp tm (kref_get node) = bus1_queue_node_get_timestamp tm node"
  "bus1_queue_node_get_timestamp tm (kref_put node) = bus1_queue_node_get_timestamp tm node"
  by (simp_all add: bus1_queue_node_get_timestamp_def kref_get_def kref_put_def)

lemma is_staging_simps [simp]:
  "bus1_queue_node_is_staging tm (node\<lparr>rb_linked := b\<rparr>) = bus1_queue_node_is_staging tm node"
  "bus1_queue_node_is_staging tm (kref_get node) = bus1_queue_node_is_staging tm node"
  "bus1_queue_node_is_staging tm (kref_put node) = bus1_queue_node_is_staging tm node"
  by (simp_all add: bus1_queue_node_is_staging_def)

lemmas queue_defs = bus1_queue_init_def bus1_queue_stage_def bus1_queue_sync_def
  bus1_queue_tick_def bus1_queue_add_def add_link_def add_uncover_def wake_if_readable_def
  bus1_queue_is_readable_def bus1_queue_commit_unstaged_def bus1_queue_commit_staged_def
  bus1_queue_node_is_queued_def bus1_queue_node_get_timestamp_def
  bus1_queue_node_set_timestamp_def bus1_queue_node_is_staging_def bus1_queue_node_compare_def
  bus1_queue_compare_def is_leftmost_def rb_erase_def kref_get_def kref_put_def
  bus1_queue_remove_def remove_front_def bus1_queue_flush_def Let_def

lemmas ex_defs = ex_tm_def ex_mem_def ex_node_def

lemma ex_a1_step: "bus1_queue_stage ex_tm (bus1_queue_init ex_mem) 2 0 = (0, ex_a1)"
  by (simp add: ex_a1_def queue_defs ex_defs)

lemma ex_a2_step: "bus1_queue_stage ex_tm ex_a1 4 0 = (0, ex_a2)"
  by (simp add: ex_a1_def ex_a2_def queue_defs ex_defs)

lemma ex_a3_step: "bus1_queue_sync ex_a2 2 = (2, ex_a3)"
  by (simp add: ex_a2_def ex_a3_def queue_defs)

lemma ex_a4_step: "bus1_queue_commit_staged ex_tm ex_a3 4 2 = (True, ex_a4)"
  by (simp add: ex_a3_def ex_a4_def queue_defs ex_defs)

lemma ex_a5_step: "bus1_queue_commit_staged ex_tm ex_a4 2 2 = (True, ex_a5)"
  by (simp add: ex_a4_def ex_a5_def queue_defs ex_defs)

lemma ex_b1_step: "bus1_queue_commit_unstaged ex_tm (bus1_queue_init ex_mem) 3 = ex_b1"
  by (simp add: ex_b1_def queue_defs ex_defs)

lemma ex_b2_step: "bus1_queue_stage ex_tm ex_b1 2 2 = (2, ex_b2)"
  by (simp add: ex_b1_def ex_b2_def queue_defs ex_defs)

lemma ex_r1_step: "bus1_queue_remove ex_tm ex_a1 (Some 2) = (True, ex_r1)"
  by (simp add: ex_a1_def ex_r1_def queue_defs ex_defs)

lemma ex_s1_step: "bus1_queue_commit_unstaged ex_tm ex_a1 3 = ex_s1"
  by (simp add: ex_a1_def ex_s1_def queue_defs ex_defs)

lemma ex_s2_step: "bus1_queue_sync ex_s1 4 = (4, ex_s2)"
  by (simp add: ex_s1_def ex_s2_def queue_defs)

lemma ex_s3_step: "bus1_queue_commit_staged ex_tm ex_s2 2 4 = (True, ex_s3)"
  by (simp add: ex_s2_def ex_s3_def queue_defs ex_defs)




lemma ex_u1_step:
  "bus1_queue_stage ex_tm (bus1_queue_init ex_mem) 4 4611686018427387904 =
     (4611686018427387904, ex_u1)"
  by (simp add: ex_u1_def queue_defs ex_defs)

lemma ex_b2_state:
  "messages ex_b2 = [3, 2] \<and> front ex_b2 = Some 3 \<and>
   bus1_queue_node_is_staging ex_tm (nodes ex_b2 2) \<and>
   \<not> bus1_queue_node_is_staging ex_tm (nodes ex_b2 3) \<and>
   ref (nodes ex_b2 2) = 2 \<and> ref (nodes ex_b2 3) = 2 \<and>
   rb_next (messages ex_b2) 3 = Some 2 \<and>
   bus1_queue_node_get_timestamp ex_tm (nodes ex_b2 2) = 3 \<and>
   bus1_queue_node_get_timestamp ex_tm (nodes ex_b2 3) = 2"
  by (simp add: ex_b2_def ex_defs bus1_queue_node_is_staging_def bus1_queue_node_get_timestamp_def)

subsection \<open>What \<open>bus1_queue_add\<close> changes\<close>

lemma get_set_timestamp:
  "bus1_queue_node_get_timestamp tm (bus1_queue_node_set_timestamp tm node ts) = ts AND NOT tm"
  by (simp add: bus1_queue_node_get_timestamp_def bus1_queue_node_set_timestamp_def
      bit.conj_disj_distrib2 and.assoc)

lemma no_type_bits: "(ts :: u64) AND tm = 0 \<Longrightarrow> ts AND NOT tm = ts"
  by (simp add: bit_eq_iff bit_simps) blast

lemma get_set_timestamp_fits:
  "ts AND tm = 0 \<Longrightarrow>
   bus1_queue_node_get_timestamp tm (bus1_queue_node_set_timestamp tm node ts) = ts"
  by (simp add: get_set_timestamp no_type_bits)

lemma add_uncover_fields [simp]:
  "nodes (add_uncover tm q node ts) = nodes q"
  "messages (add_uncover tm q node ts) = messages q"
  "clock (add_uncover tm q node ts) = clock q"
  "wakeups (add_uncover tm q node ts) = wakeups q"
  by (simp_all add: add_uncover_def split: option.splits)

lemma wake_if_readable_fields [simp]:
  "nodes (wake_if_readable r q) = nodes q"
  "messages (wake_if_readable r q) = messages q"
  "clock (wake_if_readable r q) = clock q"
  "front (wake_if_readable r q) = front q"
  by (simp_all add: wake_if_readable_def)

lemma add_link_nodes:
  "nodes (add_link tm q node ts) =
     (nodes q)(node := (bus1_queue_node_set_timestamp tm
        (if rb_linked (nodes q node) then nodes q node else kref_get (nodes q node)) ts)
        \<lparr>rb_linked := True\<rparr>)"
  by (simp add: add_link_def Let_def)

lemma add_link_fields:
  "clock (add_link tm q node ts) = clock q"
  "wakeups (add_link tm q node ts) = wakeups q"
  "messages (add_link tm q node ts) =
     rb_insert tm (nodes (add_link tm q node ts)) node
       (if rb_linked (nodes q node) then rb_erase node (messages q) else messages q)"
  by (simp_all add: add_link_def Let_def)

lemma set_timestamp_fields [simp]:
  "sender (bus1_queue_node_set_timestamp tm node ts) = sender node"
  "ref (bus1_queue_node_set_timestamp tm node ts) = ref node"
  "rb_linked (bus1_queue_node_set_timestamp tm node ts) = rb_linked node"
  by (simp_all add: bus1_queue_node_set_timestamp_def)



lemma even_word_succ:
  assumes "(c :: u64) AND 1 = 0"
  shows "c + 1 \<noteq> 0" and "(c + 1) AND 1 \<noteq> 0"
proof -
  from assms have e: "even c" by (simp add: and_one_eq even_iff_mod_2_eq_zero)
  then have "odd (c + 1)" by simp
  then show "c + 1 \<noteq> 0" by (metis even_zero)
  from \<open>odd (c + 1)\<close> show "(c + 1) AND 1 \<noteq> 0"
    by (simp add: and_one_eq even_iff_mod_2_eq_zero)
qed

lemma set_rb_insert: "set (rb_insert tm mem node ms) = insert node (set ms)"
  by (induction ms) auto

lemma add_guards_pass:
  assumes "ts \<noteq> 0" and "\<not> clock q + 1 < ts"
    and "(bus1_queue_node_get_timestamp tm (nodes q node) = 0) \<noteq> rb_linked (nodes q node)"
    and "bus1_queue_node_get_timestamp tm (nodes q node) \<noteq> 0 \<Longrightarrow>
           bus1_queue_node_get_timestamp tm (nodes q node) AND 1 \<noteq> 0 \<and>
           \<not> ts < bus1_queue_node_get_timestamp tm (nodes q node)"
    and "bus1_queue_node_get_timestamp tm (nodes q node) \<noteq> ts"
  shows "bus1_queue_add tm q node ts =
     wake_if_readable (bus1_queue_is_readable q) (add_link tm (add_uncover tm q node ts) node ts)"
  using assms by (auto simp: bus1_queue_add_def Let_def)

lemma add_guards_fail:
  assumes "ts = 0 \<or> clock q + 1 < ts \<or>
      (bus1_queue_node_get_timestamp tm (nodes q node) = 0) = rb_linked (nodes q node) \<or>
      bus1_queue_node_get_timestamp tm (nodes q node) \<noteq> 0 \<and>
        (bus1_queue_node_get_timestamp tm (nodes q node) AND 1 = 0 \<or>
         ts < bus1_queue_node_get_timestamp tm (nodes q node)) \<or>
      bus1_queue_node_get_timestamp tm (nodes q node) = ts"
  shows "bus1_queue_add tm q node ts = q"
  using assms by (auto simp: bus1_queue_add_def Let_def)

lemma add_uncover_unlinked:
  "\<not> rb_linked (nodes q node) \<Longrightarrow> add_uncover tm q node ts = q"
  by (simp add: add_uncover_def split: option.splits)

lemma add_link_front_odd:
  "ts AND 1 \<noteq> 0 \<Longrightarrow> front (add_link tm q node ts) = front q"
  by (simp add: add_link_def Let_def)


lemma compare_less_iff:
  "bus1_queue_compare a s b t < 0 \<longleftrightarrow> a < b \<or> a = b \<and> s < t"
  by (auto simp: bus1_queue_compare_def)

lemma node_less_iff:
  "node_less tm mem a b \<longleftrightarrow>
     bus1_queue_node_get_timestamp tm (mem a) < bus1_queue_node_get_timestamp tm (mem b) \<or>
     bus1_queue_node_get_timestamp tm (mem a) = bus1_queue_node_get_timestamp tm (mem b) \<and>
     sender (mem a) < sender (mem b)"
  by (simp add: node_less_def bus1_queue_node_compare_def compare_less_iff)

lemma node_less_asym: "node_less tm mem a b \<Longrightarrow> \<not> node_less tm mem b a"
  by (auto simp: node_less_iff)

lemma node_less_trans: "node_less tm mem a b \<Longrightarrow> node_less tm mem b c \<Longrightarrow> node_less tm mem a c"
  by (auto simp: node_less_iff)

lemma rb_insert_test:
  "(bus1_queue_node_compare tm (mem node) (bus1_queue_node_get_timestamp tm (mem i)) (sender (mem i)) < 0)
   = node_less tm mem node i"
  by (simp add: node_less_def)

lemma rb_insert_sorted:
  "sorted_wrt (\<lambda>a b. \<not> node_less tm mem b a) ms \<Longrightarrow>
   sorted_wrt (\<lambda>a b. \<not> node_less tm mem b a) (rb_insert tm mem node ms)"
proof (induction ms)
  case Nil
  then show ?case by simp
next
  case (Cons i ms)
  show ?case
  proof (cases "node_less tm mem node i")
    case True
    have "\<not> node_less tm mem x node" if "x \<in> set (i # ms)" for x
    proof
      assume "node_less tm mem x node"
      with True have "node_less tm mem x i" by (blast intro: node_less_trans)
      with that Cons.prems True show False
        by (auto dest: node_less_asym)
    qed
    with True Cons.prems show ?thesis
      by (simp add: rb_insert_test)
  next
    case False
    with Cons show ?thesis
      by (auto simp: rb_insert_test set_rb_insert)
  qed
qed

lemma sorted_wrt_remove1: "sorted_wrt P ms \<Longrightarrow> sorted_wrt P (remove1 x ms)"
  by (induction ms) (auto dest: notin_set_remove1)

lemma node_less_cong:
  "mem' a = mem a \<Longrightarrow> mem' b = mem b \<Longrightarrow> node_less tm mem' a b = node_less tm mem a b"
  by (simp add: node_less_iff)

lemma sorted_other_mem:
  assumes "sorted_wrt (\<lambda>a b. \<not> node_less tm mem b a) ms" and "node \<notin> set ms"
  shows "sorted_wrt (\<lambda>a b. \<not> node_less tm (mem(node := x)) b a) ms"
  using assms(1)
proof (rule sorted_wrt_mono_rel [rotated])
  fix a b
  assume ab: "a \<in> set ms" "b \<in> set ms" and le: "\<not> node_less tm mem b a"
  from ab assms(2) have "a \<noteq> node" "b \<noteq> node" by auto
  with le show "\<not> node_less tm (mem(node := x)) b a"
    by (simp add: node_less_iff)
qed

lemma relink_sorted:
  assumes "sorted_wrt (\<lambda>a b. \<not> node_less tm mem b a) ms" and "distinct ms"
  shows "sorted_wrt (\<lambda>a b. \<not> node_less tm (mem(node := x)) b a)
           (rb_insert tm (mem(node := x)) node (remove1 node ms))"
proof -
  have "node \<notin> set (remove1 node ms)"
    using assms(2) by simp
  with assms(1) show ?thesis
    by (intro rb_insert_sorted sorted_other_mem sorted_wrt_remove1)
qed

lemma distinct_rb_insert: "distinct ms \<Longrightarrow> node \<notin> set ms \<Longrightarrow> distinct (rb_insert tm mem node ms)"
  by (induction ms) (auto simp: set_rb_insert)

lemma relink_distinct:
  "distinct ms \<Longrightarrow> distinct (rb_insert tm mem node (remove1 node ms))"
  by (simp add: distinct_rb_insert)

lemma add_uncover_only_front:
  "add_uncover tm q node ts = q\<lparr>front := front (add_uncover tm q node ts)\<rparr>"
  by (simp add: add_uncover_def split: option.splits)

lemma add_link_nodes_uncover:
  "nodes (add_link tm (add_uncover tm q node ts) node ts) = nodes (add_link tm q node ts)"
  "messages (add_link tm (add_uncover tm q node ts) node ts) = messages (add_link tm q node ts)"
  "clock (add_link tm (add_uncover tm q node ts) node ts) = clock q"
  by (simp_all add: add_link_def Let_def)


subsection \<open>Removing nothing\<close>

text \<open>
  C9. \<open>bus1_queue_remove\<close> with a NULL node returns false and leaves the queue as it is:
  no change of the tree, of the front, of any node, and no wake-up. Removing a node
  that is not linked gives the same result.
\<close>

theorem remove_null_unchanged:
  "bus1_queue_remove tm q None = (False, q) \<and>
   (\<not> rb_linked (nodes q node) \<longrightarrow>
      bus1_queue_remove tm q (Some node) = bus1_queue_remove tm q None)"
  by (simp add: bus1_queue_remove_def)

theorem remove_null_unchanged_witness:
  "bus1_queue_remove ex_tm (bus1_queue_init ex_mem) None = (False, bus1_queue_init ex_mem) \<and>
   bus1_queue_remove ex_tm (bus1_queue_init ex_mem) (Some 2) = (False, bus1_queue_init ex_mem)"
proof -
  have unlinked: "\<not> rb_linked (nodes (bus1_queue_init ex_mem) 2)"
    by (simp add: bus1_queue_init_def ex_mem_def)
  from remove_null_unchanged [where tm = ex_tm and q = "bus1_queue_init ex_mem" and node = 2] unlinked
  show ?thesis by simp
qed

subsection \<open>Peek\<close>

text \<open>
  C6. \<open>bus1_queue_peek_locked\<close> returns NULL when \<open>front\<close> is NULL. Otherwise it returns
  the front node, takes one more reference on it and changes nothing else (clock,
  front, tree, wake-ups and every other node stay as they were), and the value stored
  in \<open>*continuep\<close> is true exactly when the entry that follows the front in the tree
  has the front's timestamp and the front's sender.
\<close>

theorem peek_locked_spec:
  "(front q = None \<longrightarrow> bus1_queue_peek_locked tm q = (None, q)) \<and>
   (front q = Some f \<longrightarrow>
      (\<exists>c q'. bus1_queue_peek_locked tm q = (Some (f, c), q') \<and>
         clock q' = clock q \<and> front q' = front q \<and> messages q' = messages q \<and>
         wakeups q' = wakeups q \<and>
         nodes q' = (nodes q)(f := (nodes q f)\<lparr>ref := ref (nodes q f) + 1\<rparr>) \<and>
         (c \<longleftrightarrow> (\<exists>n. rb_next (messages q) f = Some n \<and>
                  bus1_queue_node_get_timestamp tm (nodes q n) =
                    bus1_queue_node_get_timestamp tm (nodes q f) \<and>
                  sender (nodes q n) = sender (nodes q f)))))"
  by (auto simp: bus1_queue_peek_locked_def Let_def kref_get_def bus1_queue_node_compare_def
        bus1_queue_compare_eq_0 bus1_queue_node_get_timestamp_def split: option.splits)

theorem peek_locked_spec_witness:
  "fst (bus1_queue_peek_locked ex_tm (bus1_queue_init ex_mem)) = None \<and>
   fst (bus1_queue_peek_locked ex_tm ex_b2) = Some (3, False)"
proof -
  have empty: "front (bus1_queue_init ex_mem) = None"
    by (simp add: bus1_queue_init_def)
  from peek_locked_spec [where q = "bus1_queue_init ex_mem" and tm = ex_tm] empty
  have first: "fst (bus1_queue_peek_locked ex_tm (bus1_queue_init ex_mem)) = None"
    by simp
  from peek_locked_spec [where q = ex_b2 and tm = ex_tm and f = 3] ex_b2_state
  have "fst (bus1_queue_peek_locked ex_tm ex_b2) = Some (3, False)"
    by auto
  with first show ?thesis by simp
qed

subsection \<open>Flush\<close>

lemma flush_nodes_other:
  "n \<notin> set ns \<Longrightarrow> fst (flush_nodes tm ns mem l) n = mem n"
  by (induction ns arbitrary: mem l) auto

lemma flush_nodes_staging:
  "distinct ns \<Longrightarrow> n \<in> set ns \<Longrightarrow> bus1_queue_node_is_staging tm (mem n) \<Longrightarrow>
   fst (flush_nodes tm ns mem l) n = kref_put ((mem n)\<lparr>rb_linked := False\<rparr>)"
  by (induction ns arbitrary: mem l) (auto simp: flush_nodes_other)

lemma flush_nodes_committed:
  "\<not> bus1_queue_node_is_staging tm (mem n) \<Longrightarrow> fst (flush_nodes tm ns mem l) n = mem n"
proof (induction ns arbitrary: mem l)
  case Nil
  then show ?case by simp
next
  case (Cons a ns)
  show ?case
  proof (cases "bus1_queue_node_is_staging tm (mem a)")
    case True
    then have "a \<noteq> n" using Cons.prems by auto
    then show ?thesis using True Cons by simp
  next
    case False
    then show ?thesis using Cons by simp
  qed
qed

lemma is_staging_unlinked:
  "bus1_queue_node_is_staging tm ((mem(a := kref_put ((mem a)\<lparr>rb_linked := False\<rparr>))) n) =
   bus1_queue_node_is_staging tm (mem n)"
  by simp

lemma flush_nodes_list:
  "snd (flush_nodes tm ns mem l) =
     rev (filter (\<lambda>n. \<not> bus1_queue_node_is_staging tm (mem n)) ns) @ l"
  by (induction ns arbitrary: mem l) (simp_all add: is_staging_unlinked del: fun_upd_apply)

lemma count_list_filter_distinct:
  "distinct ns \<Longrightarrow> count_list (filter P ns) n = (if n \<in> set ns \<and> P n then 1 else 0)"
  by (induction ns) auto

lemma count_list_rev [simp]: "count_list (rev xs) n = count_list xs n"
  by (induction xs) auto

text \<open>
  C4. After \<open>bus1_queue_flush\<close> the tree is empty and \<open>front\<close> is NULL. A node that was
  staging in the queue is unlinked, has lost the queue's reference (one less than
  before) and is not on the caller's list; a node that was committed is on the list
  exactly once and is otherwise untouched, its reference included. The tree holds each
  node once, and the nodes of the queue are not already on the caller's list.
\<close>

theorem flush_spec:
  assumes "distinct (messages q)" and "set l \<inter> set (messages q) = {}"
    and "bus1_queue_flush tm q l = (q', l')"
  shows "messages q' = [] \<and> front q' = None \<and> clock q' = clock q \<and>
     (\<forall>n \<in> set (messages q).
        if bus1_queue_node_is_staging tm (nodes q n)
        then \<not> rb_linked (nodes q' n) \<and> ref (nodes q' n) = ref (nodes q n) - 1 \<and>
             count_list l' n = 0
        else count_list l' n = 1 \<and> nodes q' n = nodes q n) \<and>
     (\<forall>n. n \<notin> set (messages q) \<longrightarrow> nodes q' n = nodes q n \<and> count_list l' n = count_list l n)"
proof -
  have q': "q' = q\<lparr>nodes := fst (flush_nodes tm (messages q) (nodes q) l), messages := [], front := None\<rparr>"
    and l': "l' = snd (flush_nodes tm (messages q) (nodes q) l)"
    using assms(3) by (auto simp: bus1_queue_flush_def split: prod.splits)
  have notin: "count_list l n = 0" if "n \<in> set (messages q)" for n
    using that assms(2) by (auto simp: count_list_0_iff)
  show ?thesis
    using assms(1) notin
    by (auto simp: q' l' flush_nodes_list flush_nodes_other flush_nodes_staging flush_nodes_committed
        count_list_filter_distinct kref_put_def)
qed

theorem flush_spec_witness:
  "messages (fst (bus1_queue_flush ex_tm ex_b2 [])) = [] \<and>
   front (fst (bus1_queue_flush ex_tm ex_b2 [])) = None \<and>
   \<not> rb_linked (nodes (fst (bus1_queue_flush ex_tm ex_b2 [])) 2) \<and>
   ref (nodes (fst (bus1_queue_flush ex_tm ex_b2 [])) 2) = 1 \<and>
   count_list (snd (bus1_queue_flush ex_tm ex_b2 [])) 2 = 0 \<and>
   count_list (snd (bus1_queue_flush ex_tm ex_b2 [])) 3 = 1 \<and>
   ref (nodes (fst (bus1_queue_flush ex_tm ex_b2 [])) 3) = 2"
proof -
  have d: "distinct (messages ex_b2)"
    and e: "set [] \<inter> set (messages ex_b2) = {}"
    using ex_b2_state by simp_all
  have f: "bus1_queue_flush ex_tm ex_b2 [] =
      (fst (bus1_queue_flush ex_tm ex_b2 []), snd (bus1_queue_flush ex_tm ex_b2 []))"
    by simp
  from flush_spec [OF d e f] ex_b2_state show ?thesis
    by simp
qed

subsection \<open>Connect\<close>

lemma and_or_ne0: "(x :: u64) AND a \<noteq> 0 \<Longrightarrow> x AND (a OR b) \<noteq> 0"
  by (simp add: bit.conj_disj_distrib or_eq_0_iff)

lemma no_flag_zero:
  assumes "(x :: u64) AND NOT (a OR b OR c) = 0" and "x AND a = 0" and "x AND b = 0"
    and "x AND c = 0"
  shows "x = 0"
proof -
  have "x AND (a OR b OR c) = 0"
    using assms by (simp add: bit.conj_disj_distrib)
  moreover have "x = (x AND (a OR b OR c)) OR (x AND NOT (a OR b OR c))"
    by (simp add: bit_eq_iff bit_simps) blast
  ultimately show ?thesis using assms(1) by simp
qed

lemma connect_reset_mode:
  assumes "flags param AND BUS1_CONNECT_FLAG_RESET k \<noteq> 0"
  shows "bus1_peer_connect k env peer param = Inl EINVAL \<or>
         bus1_peer_connect k env peer param = bus1_peer_connect_reset k peer param"
  using assms
  by (auto simp: bus1_peer_connect_def named_def bit.conj_disj_distrib or_eq_0_iff split: if_splits)

lemma connect_bad_bits:
  "flags param AND NOT (BUS1_CONNECT_FLAG_CLIENT k OR BUS1_CONNECT_FLAG_QUERY k OR
        BUS1_CONNECT_FLAG_RESET k) \<noteq> 0 \<Longrightarrow> bus1_peer_connect k env peer param = Inl EINVAL"
  by (simp add: bus1_peer_connect_def)

lemma connect_client_and_reset:
  "flags param AND BUS1_CONNECT_FLAG_CLIENT k \<noteq> 0 \<Longrightarrow> flags param AND BUS1_CONNECT_FLAG_RESET k \<noteq> 0
     \<Longrightarrow> bus1_peer_connect k env peer param = Inl EINVAL"
  by (simp add: bus1_peer_connect_def named_def)

lemma connect_no_mode:
  assumes "flags param AND BUS1_CONNECT_FLAG_CLIENT k = 0" "flags param AND BUS1_CONNECT_FLAG_RESET k = 0"
    "flags param AND BUS1_CONNECT_FLAG_QUERY k = 0"
  shows "bus1_peer_connect k env peer param = Inl EINVAL"
proof (cases "flags param AND NOT (BUS1_CONNECT_FLAG_CLIENT k OR BUS1_CONNECT_FLAG_QUERY k OR
        BUS1_CONNECT_FLAG_RESET k) = 0")
  case True
  then have "flags param = 0"
    by (rule no_flag_zero [OF _ assms(1) assms(3) assms(2)])
  then show ?thesis
    by (simp add: bus1_peer_connect_def named_def)
next
  case False
  then show ?thesis by (rule connect_bad_bits)
qed

lemma connect_client_pool:
  assumes "flags param AND BUS1_CONNECT_FLAG_CLIENT k \<noteq> 0"
    and "pool_size param = 0 \<or> \<not> IS_ALIGNED (pool_size param) (PAGE_SIZE k)"
  shows "bus1_peer_connect k env peer param = Inl EINVAL"
  using assms and_or_ne0 [OF assms(1), of "BUS1_CONNECT_FLAG_MONITOR k"]
  by (auto simp: bus1_peer_connect_def bus1_peer_connect_new_def bus1_peer_info_new_def)

lemma connect_reset_pool:
  assumes "flags param AND BUS1_CONNECT_FLAG_RESET k \<noteq> 0" and "pool_size param \<noteq> 0"
  shows "bus1_peer_connect k env peer param =
           Inl (if active peer = ACTIVE_NEW \<and>
                   flags param AND NOT (BUS1_CONNECT_FLAG_CLIENT k OR BUS1_CONNECT_FLAG_QUERY k OR
                                        BUS1_CONNECT_FLAG_RESET k) = 0 \<and>
                   flags param AND BUS1_CONNECT_FLAG_CLIENT k = 0 \<and>
                   flags param AND BUS1_CONNECT_FLAG_MONITOR k = 0
                then ENOTCONN else EINVAL)"
  using assms
  by (auto simp: bus1_peer_connect_def bus1_peer_connect_reset_def bus1_active_is_new_def named_def
      bit.conj_disj_distrib or_eq_0_iff)

lemma connect_query_pool:
  assumes "flags param AND BUS1_CONNECT_FLAG_QUERY k \<noteq> 0" and "pool_size param \<noteq> 0"
    and "flags param AND BUS1_CONNECT_FLAG_CLIENT k = 0"
    and "flags param AND BUS1_CONNECT_FLAG_MONITOR k = 0"
    and "flags param AND BUS1_CONNECT_FLAG_RESET k = 0"
  shows "bus1_peer_connect k env peer param =
           Inl (if active peer = ACTIVE_NEW \<and>
                   flags param AND NOT (BUS1_CONNECT_FLAG_CLIENT k OR BUS1_CONNECT_FLAG_QUERY k OR
                                        BUS1_CONNECT_FLAG_RESET k) = 0 \<and>
                   flags param AND BUS1_CONNECT_FLAG_CLIENT k = 0 \<and>
                   flags param AND BUS1_CONNECT_FLAG_MONITOR k = 0
                then ENOTCONN else EINVAL)"
  using assms
  by (auto simp: bus1_peer_connect_def bus1_peer_connect_query_def bus1_active_is_new_def named_def
      bit.conj_disj_distrib or_eq_0_iff)

text \<open>
  C7, as amended. \<open>bus1_peer_connect\<close> answers \<open>EINVAL\<close> when the flags hold a bit
  outside client, reset and query, when they name client together with reset, and when
  they name no mode. With client named, a pool size that is zero or not page-aligned
  gives \<open>EINVAL\<close>. With reset named, or with query named without client, monitor or
  reset, a pool size other than zero gives \<open>EINVAL\<close>, except that a peer that was
  never connected answers \<open>ENOTCONN\<close> to flags that are otherwise accepted: that check
  comes before the one of the pool size. Nothing is said here of query named together
  with client or with reset.
\<close>

theorem connect_modes:
  "(flags param AND NOT (BUS1_CONNECT_FLAG_CLIENT k OR BUS1_CONNECT_FLAG_QUERY k OR
        BUS1_CONNECT_FLAG_RESET k) \<noteq> 0 \<longrightarrow> bus1_peer_connect k env peer param = Inl EINVAL) \<and>
   (flags param AND BUS1_CONNECT_FLAG_CLIENT k \<noteq> 0 \<and> flags param AND BUS1_CONNECT_FLAG_RESET k \<noteq> 0
      \<longrightarrow> bus1_peer_connect k env peer param = Inl EINVAL) \<and>
   (flags param AND BUS1_CONNECT_FLAG_CLIENT k = 0 \<and> flags param AND BUS1_CONNECT_FLAG_RESET k = 0 \<and>
    flags param AND BUS1_CONNECT_FLAG_QUERY k = 0
      \<longrightarrow> bus1_peer_connect k env peer param = Inl EINVAL) \<and>
   (flags param AND BUS1_CONNECT_FLAG_CLIENT k \<noteq> 0 \<and>
    (pool_size param = 0 \<or> \<not> IS_ALIGNED (pool_size param) (PAGE_SIZE k))
      \<longrightarrow> bus1_peer_connect k env peer param = Inl EINVAL) \<and>
   (pool_size param \<noteq> 0 \<and>
    (flags param AND BUS1_CONNECT_FLAG_RESET k \<noteq> 0 \<or>
     flags param AND BUS1_CONNECT_FLAG_QUERY k \<noteq> 0 \<and> flags param AND BUS1_CONNECT_FLAG_CLIENT k = 0 \<and>
     flags param AND BUS1_CONNECT_FLAG_MONITOR k = 0)
      \<longrightarrow> bus1_peer_connect k env peer param =
            Inl (if active peer = ACTIVE_NEW \<and>
                    flags param AND NOT (BUS1_CONNECT_FLAG_CLIENT k OR BUS1_CONNECT_FLAG_QUERY k OR
                                         BUS1_CONNECT_FLAG_RESET k) = 0 \<and>
                    flags param AND BUS1_CONNECT_FLAG_CLIENT k = 0 \<and>
                    flags param AND BUS1_CONNECT_FLAG_MONITOR k = 0
                 then ENOTCONN else EINVAL))"
proof (intro conjI impI)
  assume "flags param AND NOT (BUS1_CONNECT_FLAG_CLIENT k OR BUS1_CONNECT_FLAG_QUERY k OR
        BUS1_CONNECT_FLAG_RESET k) \<noteq> 0"
  then show "bus1_peer_connect k env peer param = Inl EINVAL"
    by (rule connect_bad_bits)
next
  assume "flags param AND BUS1_CONNECT_FLAG_CLIENT k \<noteq> 0 \<and> flags param AND BUS1_CONNECT_FLAG_RESET k \<noteq> 0"
  then show "bus1_peer_connect k env peer param = Inl EINVAL"
    by (simp add: connect_client_and_reset)
next
  assume "flags param AND BUS1_CONNECT_FLAG_CLIENT k = 0 \<and> flags param AND BUS1_CONNECT_FLAG_RESET k = 0 \<and>
    flags param AND BUS1_CONNECT_FLAG_QUERY k = 0"
  then show "bus1_peer_connect k env peer param = Inl EINVAL"
    by (simp add: connect_no_mode)
next
  assume "flags param AND BUS1_CONNECT_FLAG_CLIENT k \<noteq> 0 \<and>
    (pool_size param = 0 \<or> \<not> IS_ALIGNED (pool_size param) (PAGE_SIZE k))"
  then show "bus1_peer_connect k env peer param = Inl EINVAL"
    using connect_client_pool [of param k env peer] by blast
next
  assume a: "pool_size param \<noteq> 0 \<and>
    (flags param AND BUS1_CONNECT_FLAG_RESET k \<noteq> 0 \<or>
     flags param AND BUS1_CONNECT_FLAG_QUERY k \<noteq> 0 \<and> flags param AND BUS1_CONNECT_FLAG_CLIENT k = 0 \<and>
     flags param AND BUS1_CONNECT_FLAG_MONITOR k = 0)"
  show "bus1_peer_connect k env peer param =
            Inl (if active peer = ACTIVE_NEW \<and>
                    flags param AND NOT (BUS1_CONNECT_FLAG_CLIENT k OR BUS1_CONNECT_FLAG_QUERY k OR
                                         BUS1_CONNECT_FLAG_RESET k) = 0 \<and>
                    flags param AND BUS1_CONNECT_FLAG_CLIENT k = 0 \<and>
                    flags param AND BUS1_CONNECT_FLAG_MONITOR k = 0
                 then ENOTCONN else EINVAL)"
  proof (cases "flags param AND BUS1_CONNECT_FLAG_RESET k \<noteq> 0")
    case True
    with a show ?thesis by (intro connect_reset_pool) simp_all
  next
    case False
    with a show ?thesis by (intro connect_query_pool) simp_all
  qed
qed

theorem connect_modes_witness:
  "bus1_peer_connect ex_consts ex_env ex_peer_live \<lparr>flags = 16, pool_size = 0\<rparr> = Inl EINVAL \<and>
   bus1_peer_connect ex_consts ex_env ex_peer_live \<lparr>flags = 9, pool_size = 0\<rparr> = Inl EINVAL \<and>
   bus1_peer_connect ex_consts ex_env ex_peer_live \<lparr>flags = 0, pool_size = 0\<rparr> = Inl EINVAL \<and>
   bus1_peer_connect ex_consts ex_env ex_peer_new \<lparr>flags = 1, pool_size = 100\<rparr> = Inl EINVAL \<and>
   bus1_peer_connect ex_consts ex_env ex_peer_live \<lparr>flags = 8, pool_size = 4096\<rparr> = Inl EINVAL \<and>
   bus1_peer_connect ex_consts ex_env ex_peer_live \<lparr>flags = 4, pool_size = 4096\<rparr> = Inl EINVAL"
proof -
  have 1: "bus1_peer_connect ex_consts ex_env ex_peer_live \<lparr>flags = 16, pool_size = 0\<rparr> = Inl EINVAL"
    using connect_modes [where k = ex_consts and param = "\<lparr>flags = 16, pool_size = 0\<rparr>"
        and env = ex_env and peer = ex_peer_live]
    by (simp add: ex_consts_def)
  have 2: "bus1_peer_connect ex_consts ex_env ex_peer_live \<lparr>flags = 9, pool_size = 0\<rparr> = Inl EINVAL"
    using connect_modes [where k = ex_consts and param = "\<lparr>flags = 9, pool_size = 0\<rparr>"
        and env = ex_env and peer = ex_peer_live]
    by (simp add: ex_consts_def)
  have 3: "bus1_peer_connect ex_consts ex_env ex_peer_live \<lparr>flags = 0, pool_size = 0\<rparr> = Inl EINVAL"
    using connect_modes [where k = ex_consts and param = "\<lparr>flags = 0, pool_size = 0\<rparr>"
        and env = ex_env and peer = ex_peer_live]
    by (simp add: ex_consts_def)
  have 4: "bus1_peer_connect ex_consts ex_env ex_peer_new \<lparr>flags = 1, pool_size = 100\<rparr> = Inl EINVAL"
    using connect_modes [where k = ex_consts and param = "\<lparr>flags = 1, pool_size = 100\<rparr>"
        and env = ex_env and peer = ex_peer_new]
    by (simp add: ex_consts_def IS_ALIGNED_def)
  have live: "active ex_peer_live \<noteq> ACTIVE_NEW"
    by (simp add: ex_peer_live_def)
  have 5: "bus1_peer_connect ex_consts ex_env ex_peer_live \<lparr>flags = 8, pool_size = 4096\<rparr> = Inl EINVAL"
    using connect_modes [where k = ex_consts and param = "\<lparr>flags = 8, pool_size = 4096\<rparr>"
        and env = ex_env and peer = ex_peer_live] live
    by (simp add: ex_consts_def)
  have 6: "bus1_peer_connect ex_consts ex_env ex_peer_live \<lparr>flags = 4, pool_size = 4096\<rparr> = Inl EINVAL"
    using connect_modes [where k = ex_consts and param = "\<lparr>flags = 4, pool_size = 4096\<rparr>"
        and env = ex_env and peer = ex_peer_live] live
    by (simp add: ex_consts_def)
  from 1 2 3 4 5 6 show ?thesis by simp
qed

text \<open>
  Where the claim as written fails: on a peer that was never connected, reset with a
  pool size other than zero is answered with \<open>ENOTCONN\<close>, not \<open>EINVAL\<close>; and client
  together with query is not rejected, the peer is connected.
\<close>

theorem connect_modes_counterexample:
  "bus1_peer_connect ex_consts ex_env ex_peer_new \<lparr>flags = 8, pool_size = 4096\<rparr> = Inl ENOTCONN \<and>
   bus1_peer_connect ex_consts ex_env ex_peer_new \<lparr>flags = 5, pool_size = 4096\<rparr> =
     Inr (\<lparr>active = ACTIVE_LIVE,
           info = Some \<lparr>pool = \<lparr>pool_bytes = 4096, slices = []\<rparr>,
                        queue = bus1_queue_init ex_mem, freed = []\<rparr>\<rparr>,
          \<lparr>flags = 5, pool_size = 4096\<rparr>)"
  by (simp add: bus1_peer_connect_def bus1_peer_connect_new_def bus1_peer_connect_reset_def
      bus1_peer_info_new_def named_def ex_consts_def ex_env_def ex_peer_new_def IS_ALIGNED_def
      bus1_active_is_new_def bus1_active_is_deactivated_def bus1_active_activate_def)

text \<open>
  C10. When \<open>bus1_peer_connect\<close> succeeds with the reset flag named, the peer was
  connected, the caller had passed a pool size of zero, and the parameter comes back
  with the pool size of the peer as it was before the reset, which is what a query on
  the same peer reports; the peer's queue and pool are then the reset ones.
\<close>

theorem connect_reset_reports:
  assumes "bus1_peer_connect k env peer param = Inr (peer', param')"
    and "flags param AND BUS1_CONNECT_FLAG_RESET k \<noteq> 0"
  shows "\<exists>pi. info peer = Some pi \<and> pool_size param = 0 \<and>
           param' = param\<lparr>pool_size := pool_bytes (pool pi)\<rparr> \<and>
           bus1_peer_connect_query peer param = Inr (peer, param') \<and>
           info peer' = Some (bus1_peer_info_reset (BUS1_QUEUE_TYPE_MASK k) pi)"
proof -
  from connect_reset_mode [OF assms(2), of env peer] assms(1)
  have "bus1_peer_connect_reset k peer param = Inr (peer', param')"
    by auto
  then show ?thesis
    by (auto simp: bus1_peer_connect_reset_def bus1_peer_connect_query_def
        split: if_splits option.splits)
qed

theorem connect_reset_reports_witness:
  "bus1_peer_connect ex_consts ex_env ex_peer_live \<lparr>flags = 8, pool_size = 0\<rparr> =
     Inr (ex_peer_live\<lparr>info := Some (bus1_peer_info_reset (BUS1_QUEUE_TYPE_MASK ex_consts) ex_info)\<rparr>,
          \<lparr>flags = 8, pool_size = 8192\<rparr>) \<and>
   bus1_peer_connect_query ex_peer_live \<lparr>flags = 8, pool_size = 0\<rparr> =
     Inr (ex_peer_live, \<lparr>flags = 8, pool_size = 8192\<rparr>)"
proof -
  have ok: "bus1_peer_connect ex_consts ex_env ex_peer_live \<lparr>flags = 8, pool_size = 0\<rparr> =
     Inr (ex_peer_live\<lparr>info := Some (bus1_peer_info_reset (BUS1_QUEUE_TYPE_MASK ex_consts) ex_info)\<rparr>,
          \<lparr>flags = 8, pool_size = 8192\<rparr>)"
    by (simp add: bus1_peer_connect_def bus1_peer_connect_reset_def named_def ex_consts_def
        ex_peer_live_def ex_info_def bus1_active_is_new_def bus1_peer_acquire_def)
  have reset: "flags \<lparr>flags = 8, pool_size = 0\<rparr> AND BUS1_CONNECT_FLAG_RESET ex_consts \<noteq> 0"
    by (simp add: ex_consts_def)
  from connect_reset_reports [OF ok reset] ok show ?thesis
    by auto
qed

subsection \<open>Send\<close>

text \<open>
  C8, as amended. A send request that was copied in and whose vector count exceeds
  \<open>BUS1_VEC_MAX\<close>, or whose file-descriptor count exceeds \<open>BUS1_FD_MAX\<close>, fails before
  anything is staged or committed (the state of the queues is the one before the call).
  The error is \<open>EMSGSIZE\<close>; it is \<open>EINVAL\<close> only when the request also has an
  unknown flag, which is checked first.
\<close>

theorem send_limits:
  assumes "import_fixed_ioctl env arg = Inr param"
    and "BUS1_VEC_MAX k < n_vecs param \<or> BUS1_FD_MAX k < n_fds param"
  shows "bus1_peer_ioctl_send k env s arg =
     (Inl (if send_flags param AND NOT (BUS1_SEND_FLAG_CONTINUE k OR BUS1_SEND_FLAG_SILENT k OR
                 BUS1_SEND_FLAG_RELEASE k) \<noteq> 0 then EINVAL else EMSGSIZE), s)"
  using assms by (simp add: bus1_peer_ioctl_send_def)

theorem send_limits_witness:
  "bus1_peer_ioctl_send ex_consts ex_send_env () 0 = (Inl EMSGSIZE, ())"
proof -
  have imported: "import_fixed_ioctl ex_send_env 0 = Inr ex_send"
    by (simp add: ex_send_env_def)
  have oversized: "BUS1_VEC_MAX ex_consts < n_vecs ex_send \<or> BUS1_FD_MAX ex_consts < n_fds ex_send"
    by (simp add: ex_consts_def ex_send_def)
  from send_limits [OF imported oversized, of "()"] show ?thesis
    by (simp add: ex_consts_def ex_send_def)
qed

text \<open>
  Where the claim as written fails: 513 vectors with \<open>BUS1_VEC_MAX\<close> = 512 and no flag
  set; the error is not \<open>EINVAL\<close>.
\<close>

theorem send_limits_counterexample:
  "import_fixed_ioctl ex_send_env 0 = Inr ex_send \<and> BUS1_VEC_MAX ex_consts < n_vecs ex_send \<and>
   fst (bus1_peer_ioctl_send ex_consts ex_send_env () 0) \<noteq> Inl EINVAL"
  by (simp add: bus1_peer_ioctl_send_def ex_send_env_def ex_send_def ex_consts_def)

subsection \<open>Timestamps only grow\<close>







subsection \<open>Stage\<close>

text \<open>
  C3, as amended. For a node that is unlinked and has never been stamped (timestamp 0),
  an even \<open>min_ts\<close> and a queue with an even clock, \<open>bus1_queue_stage\<close> syncs the clock
  to the larger of clock and \<open>min_ts\<close>, links the node with the odd timestamp one above
  it, so that the node is staging, takes a reference, leaves \<open>front\<close> alone and wakes
  nobody, and returns the even clock value; with \<open>min_ts\<close> equal to the clock it returns
  the clock. The stage timestamp, the synced clock plus one, has no bit in the type mask.
\<close>

theorem stage_fresh:
  assumes "\<not> rb_linked (nodes q node)"
    and "bus1_queue_node_get_timestamp tm (nodes q node) = 0"
    and "min_ts AND 1 = 0" and "clock q AND 1 = 0"
    and "(max (clock q) min_ts + 1) AND tm = 0"
  shows "\<exists>q'. bus1_queue_stage tm q node min_ts = (max (clock q) min_ts, q') \<and>
     clock q' = max (clock q) min_ts \<and>
     bus1_queue_node_get_timestamp tm (nodes q' node) = max (clock q) min_ts + 1 \<and>
     bus1_queue_node_is_staging tm (nodes q' node) \<and>
     rb_linked (nodes q' node) \<and> ref (nodes q' node) = ref (nodes q node) + 1 \<and>
     (\<forall>m. m \<noteq> node \<longrightarrow> nodes q' m = nodes q m) \<and>
     messages q' = rb_insert tm (nodes q') node (messages q) \<and>
     set (messages q') = insert node (set (messages q)) \<and>
     front q' = front q \<and> wakeups q' = wakeups q \<and>
     fst (bus1_queue_stage tm q node (clock q)) = clock q"
proof -
  let ?c = "max (clock q) min_ts"
  let ?q1 = "q\<lparr>clock := ?c\<rparr>"
  have sync: "bus1_queue_sync q min_ts = (?c, ?q1)"
    using assms(3) by (simp add: bus1_queue_sync_def Let_def)
  have even: "?c AND 1 = 0"
    using assms(3,4) by (simp add: max_def)
  note odd = even_word_succ [OF even]
  have add: "bus1_queue_add tm ?q1 node (?c + 1) =
      wake_if_readable (bus1_queue_is_readable ?q1) (add_link tm ?q1 node (?c + 1))"
    using assms(1,2) odd
    by (subst add_guards_pass) (auto simp: add_uncover_unlinked)
  let ?q' = "bus1_queue_add tm ?q1 node (?c + 1)"
  have stage: "bus1_queue_stage tm q node min_ts = (?c, ?q')"
    by (simp add: bus1_queue_stage_def sync)
  have front: "front ?q' = front q"
    using odd(2) by (simp add: add add_link_front_odd)
  have wake: "wakeups ?q' = wakeups q"
    using odd(2)
    by (cases "front q")
      (simp_all add: add wake_if_readable_def bus1_queue_is_readable_def add_link_fields
        add_link_front_odd)
  have same: "fst (bus1_queue_stage tm q node (clock q)) = clock q"
    using assms(4) by (simp add: bus1_queue_stage_def bus1_queue_sync_def split_beta Let_def)
  have ts: "bus1_queue_node_get_timestamp tm (nodes ?q' node) = ?c + 1"
    using assms(5) by (simp add: add add_link_nodes get_set_timestamp_fits)
  then have staging: "bus1_queue_node_is_staging tm (nodes ?q' node)"
    using odd(2) by (simp add: bus1_queue_node_is_staging_def)
  show ?thesis
    using stage front wake same ts staging assms(1)
    by (simp add: add add_link_nodes add_link_fields set_rb_insert kref_get_def)
qed

theorem stage_fresh_witness:
  "bus1_queue_stage ex_tm ex_b1 2 2 = (2, ex_b2) \<and> clock ex_b1 = 2 \<and>
   bus1_queue_node_get_timestamp ex_tm (nodes ex_b2 2) = 3 \<and>
   bus1_queue_node_is_staging ex_tm (nodes ex_b2 2) \<and>
   set (messages ex_b2) = insert 2 (set (messages ex_b1)) \<and> front ex_b2 = front ex_b1"
proof -
  have fresh: "\<not> rb_linked (nodes ex_b1 2)"
    "bus1_queue_node_get_timestamp ex_tm (nodes ex_b1 2) = 0"
    by (simp_all add: ex_b1_def ex_defs bus1_queue_node_get_timestamp_def)
  have even: "(2 :: u64) AND 1 = 0" "clock ex_b1 AND 1 = 0"
    by (simp_all add: ex_b1_def)
  have fits: "(max (clock ex_b1) 2 + 1) AND ex_tm = 0"
    by (simp add: ex_b1_def ex_tm_def)
  have c: "clock ex_b1 = 2"
    by (simp add: ex_b1_def)
  from stage_fresh [OF fresh even fits] ex_b2_step c show ?thesis
    by auto
qed

text \<open>
  Where the claim as written fails: node 2 is staged, then removed, which leaves it
  unlinked with its stage timestamp 1. Staged again, it is not linked: \<open>bus1_queue_add\<close>
  returns at its second check, and the queue stays empty. And where the stage timestamp
  has a type bit: the fresh node 4, staged on the empty queue with minimum \<open>2 ^ 62\<close>, is
  linked and \<open>2 ^ 62\<close> is returned, but its timestamp reads 1, not \<open>2 ^ 62 + 1\<close>.
\<close>

theorem stage_fresh_counterexample:
  "bus1_queue_stage ex_tm (bus1_queue_init ex_mem) 2 0 = (0, ex_a1) \<and>
   bus1_queue_remove ex_tm ex_a1 (Some 2) = (True, ex_r1) \<and>
   \<not> rb_linked (nodes ex_r1 2) \<and>
   bus1_queue_stage ex_tm ex_r1 2 0 = (0, ex_r1) \<and> messages ex_r1 = [] \<and>
   \<not> rb_linked (nodes (bus1_queue_init ex_mem) 4) \<and>
   bus1_queue_node_get_timestamp ex_tm (nodes (bus1_queue_init ex_mem) 4) = 0 \<and>
   bus1_queue_stage ex_tm (bus1_queue_init ex_mem) 4 4611686018427387904 =
     (4611686018427387904, ex_u1) \<and>
   bus1_queue_node_get_timestamp ex_tm (nodes ex_u1 4) = 1"
  by (simp add: ex_a1_step ex_r1_step ex_u1_step)
    (simp add: ex_r1_def ex_u1_def queue_defs ex_defs)

subsection \<open>Commit of a staged node\<close>

text \<open>
  C2, as amended. \<open>bus1_queue_commit_staged\<close> returns false and leaves the queue as it
  is when the node is not linked, and true when it is linked. A linked node that is
  staging is re-stamped to \<open>ts\<close> and put at its place in the order when \<open>ts\<close> is even,
  not zero, at most the clock plus one, at least the node's stage timestamp and free of
  type bits: the node is then committed, the tree holds the same nodes and is still in
  order. When \<open>ts\<close> is zero, ahead of the clock or below the node's timestamp, or the
  node is already committed, the queue is left as it is, and true is returned all the
  same. After a flush has unlinked a staging node, committing it returns false, changes
  nothing and does not put the node on any list.
\<close>

theorem commit_staged_spec:
  "(\<not> rb_linked (nodes q node) \<longrightarrow> bus1_queue_commit_staged tm q node ts = (False, q)) \<and>
   (rb_linked (nodes q node) \<longrightarrow> fst (bus1_queue_commit_staged tm q node ts)) \<and>
   (rb_linked (nodes q node) \<and> bus1_queue_node_is_staging tm (nodes q node) \<and>
    ts AND 1 = 0 \<and> ts \<noteq> 0 \<and> ts \<le> clock q + 1 \<and>
    bus1_queue_node_get_timestamp tm (nodes q node) \<le> ts \<and> ts AND tm = 0 \<and>
    distinct (messages q) \<and> queue_sorted tm q \<and> node \<in> set (messages q) \<longrightarrow>
      (let q' = snd (bus1_queue_commit_staged tm q node ts) in
         bus1_queue_node_get_timestamp tm (nodes q' node) = ts \<and>
         \<not> bus1_queue_node_is_staging tm (nodes q' node) \<and>
         rb_linked (nodes q' node) \<and> ref (nodes q' node) = ref (nodes q node) \<and>
         sender (nodes q' node) = sender (nodes q node) \<and>
         (\<forall>m. m \<noteq> node \<longrightarrow> nodes q' m = nodes q m) \<and>
         messages q' = rb_insert tm (nodes q') node (rb_erase node (messages q)) \<and>
         set (messages q') = set (messages q) \<and> distinct (messages q') \<and>
         queue_sorted tm q' \<and> clock q' = clock q)) \<and>
   (rb_linked (nodes q node) \<and>
    (ts = 0 \<or> clock q + 1 < ts \<or> ts < bus1_queue_node_get_timestamp tm (nodes q node) \<or>
     \<not> bus1_queue_node_is_staging tm (nodes q node)) \<longrightarrow>
      snd (bus1_queue_commit_staged tm q node ts) = q) \<and>
   (distinct (messages q) \<and> node \<in> set (messages q) \<and>
    bus1_queue_node_is_staging tm (nodes q node) \<longrightarrow>
      bus1_queue_commit_staged tm (fst (bus1_queue_flush tm q l)) node ts =
        (False, fst (bus1_queue_flush tm q l)) \<and>
      count_list (snd (bus1_queue_flush tm q l)) node = count_list l node)"
proof (intro conjI impI)
  assume "\<not> rb_linked (nodes q node)"
  then show "bus1_queue_commit_staged tm q node ts = (False, q)"
    by (simp add: bus1_queue_commit_staged_def bus1_queue_node_is_queued_def)
next
  assume "rb_linked (nodes q node)"
  then show "fst (bus1_queue_commit_staged tm q node ts)"
    by (simp add: bus1_queue_commit_staged_def bus1_queue_node_is_queued_def)
next
  assume a: "rb_linked (nodes q node) \<and> bus1_queue_node_is_staging tm (nodes q node) \<and>
    ts AND 1 = 0 \<and> ts \<noteq> 0 \<and> ts \<le> clock q + 1 \<and>
    bus1_queue_node_get_timestamp tm (nodes q node) \<le> ts \<and> ts AND tm = 0 \<and>
    distinct (messages q) \<and> queue_sorted tm q \<and> node \<in> set (messages q)"
  let ?q' = "snd (bus1_queue_commit_staged tm q node ts)"
  have odd: "bus1_queue_node_get_timestamp tm (nodes q node) AND 1 \<noteq> 0"
    using a by (simp add: bus1_queue_node_is_staging_def)
  then have ne: "bus1_queue_node_get_timestamp tm (nodes q node) \<noteq> 0"
    "bus1_queue_node_get_timestamp tm (nodes q node) \<noteq> ts"
    using a by auto
  have q': "?q' = wake_if_readable (bus1_queue_is_readable q)
                (add_link tm (add_uncover tm q node ts) node ts)"
    using a odd ne
    by (simp add: bus1_queue_commit_staged_def bus1_queue_node_is_queued_def add_guards_pass
        not_less)
  have n: "nodes ?q' =
      (nodes q)(node := (bus1_queue_node_set_timestamp tm (nodes q node) ts)\<lparr>rb_linked := True\<rparr>)"
    using a by (simp add: q' add_link_nodes_uncover add_link_nodes)
  have m: "messages ?q' = rb_insert tm (nodes ?q') node (rb_erase node (messages q))"
    using a by (simp add: q' add_link_nodes_uncover add_link_fields)
  have s: "queue_sorted tm ?q'"
    using a unfolding queue_sorted_def m rb_erase_def
    by (simp add: n relink_sorted queue_sorted_def)
  have ts: "bus1_queue_node_get_timestamp tm (nodes ?q' node) = ts"
    using a by (simp add: n get_set_timestamp_fits)
  show "let q' = ?q' in
         bus1_queue_node_get_timestamp tm (nodes q' node) = ts \<and>
         \<not> bus1_queue_node_is_staging tm (nodes q' node) \<and>
         rb_linked (nodes q' node) \<and> ref (nodes q' node) = ref (nodes q node) \<and>
         sender (nodes q' node) = sender (nodes q node) \<and>
         (\<forall>m. m \<noteq> node \<longrightarrow> nodes q' m = nodes q m) \<and>
         messages q' = rb_insert tm (nodes q') node (rb_erase node (messages q)) \<and>
         set (messages q') = set (messages q) \<and> distinct (messages q') \<and>
         queue_sorted tm q' \<and> clock q' = clock q"
    unfolding Let_def
  proof (intro conjI)
    show "bus1_queue_node_get_timestamp tm (nodes ?q' node) = ts" by (rule ts)
    show "\<not> bus1_queue_node_is_staging tm (nodes ?q' node)"
      using a by (simp add: bus1_queue_node_is_staging_def ts)
    show "rb_linked (nodes ?q' node)" using a by (simp add: n)
    show "ref (nodes ?q' node) = ref (nodes q node)" by (simp add: n)
    show "sender (nodes ?q' node) = sender (nodes q node)" by (simp add: n)
    show "\<forall>m. m \<noteq> node \<longrightarrow> nodes ?q' m = nodes q m" by (simp add: n)
    show "messages ?q' = rb_insert tm (nodes ?q') node (rb_erase node (messages q))" by (rule m)
    show "set (messages ?q') = set (messages q)"
      using a by (auto simp: m set_rb_insert rb_erase_def)
    show "distinct (messages ?q')"
      using a by (simp add: m rb_erase_def relink_distinct)
    show "queue_sorted tm ?q'" by (rule s)
    show "clock ?q' = clock q" by (simp add: q' add_link_nodes_uncover)
  qed
next
  assume "rb_linked (nodes q node) \<and>
    (ts = 0 \<or> clock q + 1 < ts \<or> ts < bus1_queue_node_get_timestamp tm (nodes q node) \<or>
     \<not> bus1_queue_node_is_staging tm (nodes q node))"
  then show "snd (bus1_queue_commit_staged tm q node ts) = q"
    by (auto simp: bus1_queue_commit_staged_def bus1_queue_node_is_queued_def Let_def
        bus1_queue_node_is_staging_def intro!: add_guards_fail)
next
  assume a: "distinct (messages q) \<and> node \<in> set (messages q) \<and>
    bus1_queue_node_is_staging tm (nodes q node)"
  then have "\<not> rb_linked (nodes (fst (bus1_queue_flush tm q l)) node)"
    by (simp add: bus1_queue_flush_def split_beta flush_nodes_staging kref_put_def)
  then show "bus1_queue_commit_staged tm (fst (bus1_queue_flush tm q l)) node ts =
        (False, fst (bus1_queue_flush tm q l))"
    by (simp add: bus1_queue_commit_staged_def bus1_queue_node_is_queued_def)
next
  assume a: "distinct (messages q) \<and> node \<in> set (messages q) \<and>
    bus1_queue_node_is_staging tm (nodes q node)"
  then show "count_list (snd (bus1_queue_flush tm q l)) node = count_list l node"
    by (simp add: bus1_queue_flush_def split_beta flush_nodes_list count_list_filter_distinct)
qed

theorem commit_staged_spec_witness:
  "bus1_queue_commit_staged ex_tm (bus1_queue_init ex_mem) 2 2 = (False, bus1_queue_init ex_mem) \<and>
   fst (bus1_queue_commit_staged ex_tm ex_a3 4 2) \<and>
   bus1_queue_node_get_timestamp ex_tm (nodes (snd (bus1_queue_commit_staged ex_tm ex_a3 4 2)) 4) = 2 \<and>
   queue_sorted ex_tm (snd (bus1_queue_commit_staged ex_tm ex_a3 4 2)) \<and>
   snd (bus1_queue_commit_staged ex_tm ex_a1 2 4) = ex_a1 \<and>
   bus1_queue_commit_staged ex_tm (fst (bus1_queue_flush ex_tm ex_b2 [])) 2 4 =
     (False, fst (bus1_queue_flush ex_tm ex_b2 []))"
proof -
  note spec = commit_staged_spec [where tm = ex_tm]
  have 1: "bus1_queue_commit_staged ex_tm (bus1_queue_init ex_mem) 2 2 = (False, bus1_queue_init ex_mem)"
    using spec [where q = "bus1_queue_init ex_mem" and node = 2 and ts = 2]
    by (simp add: bus1_queue_init_def ex_defs)
  have valid: "rb_linked (nodes ex_a3 4) \<and> bus1_queue_node_is_staging ex_tm (nodes ex_a3 4) \<and>
    (2 :: u64) AND 1 = 0 \<and> (2 :: u64) \<noteq> 0 \<and> 2 \<le> clock ex_a3 + 1 \<and>
    bus1_queue_node_get_timestamp ex_tm (nodes ex_a3 4) \<le> 2 \<and> 2 AND ex_tm = 0 \<and>
    distinct (messages ex_a3) \<and> queue_sorted ex_tm ex_a3 \<and> 4 \<in> set (messages ex_a3)"
    by (simp add: ex_a3_def ex_defs bus1_queue_node_is_staging_def bus1_queue_node_get_timestamp_def
        queue_sorted_def node_less_iff)
  have 2: "fst (bus1_queue_commit_staged ex_tm ex_a3 4 2) \<and>
    bus1_queue_node_get_timestamp ex_tm (nodes (snd (bus1_queue_commit_staged ex_tm ex_a3 4 2)) 4) = 2 \<and>
    queue_sorted ex_tm (snd (bus1_queue_commit_staged ex_tm ex_a3 4 2))"
    using spec [where q = ex_a3 and node = 4 and ts = 2] valid
    by (simp add: Let_def)
  have ahead: "rb_linked (nodes ex_a1 2) \<and> clock ex_a1 + 1 < 4"
    by (simp add: ex_a1_def ex_defs)
  have 3: "snd (bus1_queue_commit_staged ex_tm ex_a1 2 4) = ex_a1"
    using spec [where q = ex_a1 and node = 2 and ts = 4] ahead
    by simp
  have flushed: "distinct (messages ex_b2) \<and> 2 \<in> set (messages ex_b2) \<and>
    bus1_queue_node_is_staging ex_tm (nodes ex_b2 2)"
    using ex_b2_state by simp
  have 4: "bus1_queue_commit_staged ex_tm (fst (bus1_queue_flush ex_tm ex_b2 [])) 2 4 =
     (False, fst (bus1_queue_flush ex_tm ex_b2 []))"
    using spec [where q = ex_b2 and node = 2 and ts = 4 and l = "[]"] flushed
    by simp
  from 1 2 3 4 show ?thesis by simp
qed

text \<open>
  Where the claim as written fails: node 2 is staged at 1 on a queue whose clock is 0 and
  committed with the even timestamp 4 before the clock is synced. The call returns true,
  and the node keeps its timestamp 1 and stays staging.
\<close>

theorem commit_staged_spec_counterexample:
  "bus1_queue_stage ex_tm (bus1_queue_init ex_mem) 2 0 = (0, ex_a1) \<and>
   rb_linked (nodes ex_a1 2) \<and>
   bus1_queue_commit_staged ex_tm ex_a1 2 4 = (True, ex_a1) \<and>
   bus1_queue_node_get_timestamp ex_tm (nodes ex_a1 2) = 1 \<and>
   bus1_queue_node_is_staging ex_tm (nodes ex_a1 2)"
  by (simp add: ex_a1_step) (simp add: ex_a1_def queue_defs ex_defs)

subsection \<open>The front\<close>

text \<open>
  C1. The claim: after every queue operation, \<open>front\<close> is the first entry of the tree if
  that entry is committed, and NULL otherwise. The source loses the front when a staged
  first entry is committed with the timestamp and the sender of the committed entry that
  follows it: one sender stages nodes 2 and 4 on an empty queue, the clock is synced to
  2, node 4 is committed at 2 and then node 2 is committed at 2. Both nodes are then
  committed, node 4 is the first entry, and \<open>front\<close> is NULL.
\<close>

theorem front_lost_between_twins:
  "bus1_queue_stage ex_tm (bus1_queue_init ex_mem) 2 0 = (0, ex_a1) \<and>
   bus1_queue_stage ex_tm ex_a1 4 0 = (0, ex_a2) \<and>
   bus1_queue_sync ex_a2 2 = (2, ex_a3) \<and>
   bus1_queue_commit_staged ex_tm ex_a3 4 2 = (True, ex_a4) \<and>
   bus1_queue_commit_staged ex_tm ex_a4 2 2 = (True, ex_a5) \<and>
   messages ex_a5 = [4, 2] \<and>
   bus1_queue_node_get_timestamp ex_tm (nodes ex_a5 4) = 2 \<and>
   bus1_queue_node_get_timestamp ex_tm (nodes ex_a5 2) = 2 \<and>
   \<not> bus1_queue_node_is_staging ex_tm (nodes ex_a5 4) \<and>
   front ex_a5 = None \<and> \<not> front_inv ex_tm ex_a5 \<and>
   front_inv ex_tm ex_a4 \<and> \<not> no_twin_next ex_tm ex_a4 2 2"
  by (simp add: ex_a1_step ex_a2_step ex_a3_step ex_a4_step ex_a5_step)
    (simp add: ex_a4_def ex_a5_def ex_defs bus1_queue_node_is_staging_def
      bus1_queue_node_get_timestamp_def front_inv_def expected_front_def no_twin_next_def
      bus1_queue_node_compare_def bus1_queue_compare_def)

subsection \<open>Where the front is kept\<close>

lemma rb_prev_None_iff: "n \<in> set ms \<Longrightarrow> rb_prev ms n = None \<longleftrightarrow> hd ms = n"
  by (induction ms n rule: rb_prev.induct) auto

lemma rb_next_hd: "rb_next (n # t) n = (case t of [] \<Rightarrow> None | x # _ \<Rightarrow> Some x)"
  by (cases t) auto

lemma rb_insert_leftmost:
  "is_leftmost tm mem node ms \<Longrightarrow> rb_insert tm mem node ms = node # ms"
  by (cases ms) (auto simp: is_leftmost_def)

lemma rb_insert_not_leftmost:
  "\<not> is_leftmost tm mem node ms \<Longrightarrow>
   \<exists>h t. ms = h # t \<and> rb_insert tm mem node ms = h # rb_insert tm mem node t"
  by (cases ms) (auto simp: is_leftmost_def)

lemma expected_front_insert:
  "expected_front tm mem (rb_insert tm mem node ms) =
     (if is_leftmost tm mem node ms
      then (if bus1_queue_node_is_staging tm (mem node) then None else Some node)
      else expected_front tm mem ms)"
proof (cases "is_leftmost tm mem node ms")
  case True
  then show ?thesis by (simp add: rb_insert_leftmost expected_front_def)
next
  case False
  from rb_insert_not_leftmost [OF False] False show ?thesis
    by (auto simp: expected_front_def)
qed

lemma expected_front_other_mem:
  "node \<notin> set ms \<Longrightarrow> expected_front tm (mem(node := x)) ms = expected_front tm mem ms"
  by (cases ms) (auto simp: expected_front_def)

lemma is_leftmost_iff:
  "is_leftmost tm mem node ms \<longleftrightarrow> (case ms of [] \<Rightarrow> True | i # _ \<Rightarrow> node_less tm mem node i)"
  by (simp add: is_leftmost_def node_less_def split: list.splits)

lemma add_link_front:
  "front (add_link tm q node ts) =
     (if ts AND 1 = 0 \<and>
         is_leftmost tm (nodes (add_link tm q node ts)) node
           (if rb_linked (nodes q node) then rb_erase node (messages q) else messages q)
      then Some node else front q)"
  by (auto simp: add_link_def Let_def)

lemma staging_after_stamp:
  "ts AND tm = 0 \<Longrightarrow>
   bus1_queue_node_is_staging tm (bus1_queue_node_set_timestamp tm n ts) = (ts AND 1 \<noteq> 0)"
  by (simp add: bus1_queue_node_is_staging_def get_set_timestamp_fits)

text \<open>
  The front after \<open>bus1_queue_add\<close> went through, in terms of the front that
  \<open>add_uncover\<close> left.
\<close>

lemma add_front_inv:
  assumes fits: "ts AND tm = 0"
    and odd: "ts AND 1 \<noteq> 0 \<Longrightarrow>
        is_leftmost tm (nodes (add_link tm q node ts)) node
          (if rb_linked (nodes q node) then rb_erase node (messages q) else messages q) \<Longrightarrow>
        front (add_uncover tm q node ts) = None"
    and rest: "\<not> is_leftmost tm (nodes (add_link tm q node ts)) node
          (if rb_linked (nodes q node) then rb_erase node (messages q) else messages q) \<Longrightarrow>
        front (add_uncover tm q node ts) =
          expected_front tm (nodes (add_link tm q node ts))
            (if rb_linked (nodes q node) then rb_erase node (messages q) else messages q)"
  shows "front_inv tm (wake_if_readable r (add_link tm (add_uncover tm q node ts) node ts))"
proof -
  let ?q' = "add_link tm (add_uncover tm q node ts) node ts"
  let ?ms1 = "if rb_linked (nodes q node) then rb_erase node (messages q) else messages q"
  have n: "nodes ?q' = nodes (add_link tm q node ts)"
    and m: "messages ?q' = rb_insert tm (nodes (add_link tm q node ts)) node ?ms1"
    by (simp_all add: add_link_nodes_uncover add_link_fields)
  have f: "front ?q' =
      (if ts AND 1 = 0 \<and> is_leftmost tm (nodes (add_link tm q node ts)) node ?ms1
       then Some node else front (add_uncover tm q node ts))"
    by (auto simp: add_link_front add_link_nodes_uncover)
  have st: "bus1_queue_node_is_staging tm (nodes (add_link tm q node ts) node) = (ts AND 1 \<noteq> 0)"
    using fits by (simp add: add_link_nodes staging_after_stamp)
  show ?thesis
    using odd rest
    by (auto simp: front_inv_def n m f expected_front_insert st)
qed


lemma compare_trichotomy:
  "bus1_queue_compare a s b t < 0 \<or> bus1_queue_compare a s b t = 0 \<or> bus1_queue_compare b t a s < 0"
  by (auto simp: bus1_queue_compare_def)

text \<open>
  Committing a staged node: what \<open>add_uncover\<close> leaves is the front of the tree
  without the node, unless the node becomes the first entry again.
\<close>

lemma commit_uncover_front:
  assumes inv: "front_inv tm q" and d: "distinct (messages q)"
    and mem: "node \<in> set (messages q)" and st: "bus1_queue_node_is_staging tm (nodes q node)"
    and l: "rb_linked (nodes q node)"
    and twin: "no_twin_next tm q node ts"
    and ts: "bus1_queue_node_get_timestamp tm (mem' node) = ts"
      "sender (mem' node) = sender (nodes q node)"
    and other: "\<And>m. m \<noteq> node \<Longrightarrow> mem' m = nodes q m"
    and nl: "\<not> is_leftmost tm mem' node (rb_erase node (messages q))"
  shows "front (add_uncover tm q node ts) = expected_front tm mem' (rb_erase node (messages q))"
proof -
  from mem obtain h t where ms: "messages q = h # t"
    by (cases "messages q") auto
  show ?thesis
  proof (cases "node = h")
    case False
    then have prev: "rb_prev (messages q) node \<noteq> None"
      using mem by (simp add: rb_prev_None_iff ms)
    have "front (add_uncover tm q node ts) = front q"
      using prev by (simp add: add_uncover_def split: option.splits)
    also have "\<dots> = expected_front tm (nodes q) (h # t)"
      using inv by (simp add: front_inv_def ms)
    also have "\<dots> = expected_front tm mem' (rb_erase node (messages q))"
      using False other [of h] by (simp add: expected_front_def ms rb_erase_def)
    finally show ?thesis .
  next
    case True
    then have none: "front q = None"
      using inv st by (simp add: front_inv_def ms expected_front_def)
    have prev: "rb_prev (messages q) node = None"
      using mem True by (simp add: rb_prev_None_iff ms)
    have erase: "rb_erase node (messages q) = t"
      using True by (simp add: rb_erase_def ms)
    show ?thesis
    proof (cases t)
      case Nil
      then show ?thesis
        unfolding erase using none prev l
        by (simp add: expected_front_def add_uncover_def ms)
    next
      case (Cons nx t')
      then have nx: "nx \<noteq> node" using d True by (auto simp: ms)
      have nxt: "rb_next (messages q) node = Some nx"
        using True Cons by (simp add: ms)
      from nl have "\<not> node_less tm mem' node nx"
        by (simp add: erase Cons is_leftmost_iff)
      then have "\<not> bus1_queue_compare ts (sender (nodes q node))
           (bus1_queue_node_get_timestamp tm (nodes q nx)) (sender (nodes q nx)) < 0"
        using ts other [OF nx] by (simp add: node_less_def bus1_queue_node_compare_def)
      moreover from twin nxt
      have "bus1_queue_compare (bus1_queue_node_get_timestamp tm (nodes q nx)) (sender (nodes q nx))
          ts (sender (nodes q node)) \<noteq> 0"
        by (simp add: no_twin_next_def bus1_queue_node_compare_def)
      ultimately
      have less: "bus1_queue_node_compare tm (nodes q nx) ts (sender (nodes q node)) < 0"
        using compare_trichotomy [of "bus1_queue_node_get_timestamp tm (nodes q nx)" "sender (nodes q nx)"
            ts "sender (nodes q node)"]
        by (auto simp: bus1_queue_node_compare_def)
      show ?thesis
        unfolding erase using none prev l nxt less other [OF nx]
        by (simp add: Cons expected_front_def add_uncover_def)
    qed
  qed
qed


lemma and1_even: "((c :: u64) AND 1 = 0) = even c"
  by (simp add: and_one_eq even_iff_mod_2_eq_zero)

lemma unat_succ_le: "unat ((c :: u64) + 1) \<le> unat c + 1"
proof -
  have "unat (c + 1) = (unat c + unat (1 :: u64)) mod 2 ^ LENGTH(64)"
    by (rule unat_word_ariths)
  also have "\<dots> \<le> unat c + unat (1 :: u64)"
    by (rule mod_less_eq_dividend)
  finally show ?thesis by simp
qed

lemma round_up_even: "((m :: u64) + (m AND 1)) AND 1 = 0"
proof (cases "even m")
  case True
  then show ?thesis by (simp add: and1_even and_one_eq even_iff_mod_2_eq_zero)
next
  case False
  then have "m AND 1 = 1" by (simp add: and_one_eq odd_iff_mod_2_eq_one)
  with False show ?thesis by (simp add: and1_even)
qed

lemma even_plus_2: "(c :: u64) AND 1 = 0 \<Longrightarrow> (c + 2) AND 1 = 0"
  by (simp add: and1_even)

lemma unat_plus_2: "unat (c :: u64) + 2 < 2 ^ 64 \<Longrightarrow> unat (c + 2) = unat c + 2"
proof -
  assume a: "unat c + 2 < 2 ^ 64"
  have "unat (c + 2) = (unat c + unat (2 :: u64)) mod 2 ^ LENGTH(64)"
    by (rule unat_word_ariths)
  with a show ?thesis by simp
qed

lemma unat_even_succ: "(c :: u64) AND 1 = 0 \<Longrightarrow> unat (c + 1) = unat c + 1"
  using even_word_succ(1) [of c] unatSuc [of c] by (simp add: add.commute)

lemma unat_max: "unat (max (a :: u64) b) = max (unat a) (unat b)"
  by (simp add: max_def word_le_nat_alt)

lemma unat_bound: "\<not> (c :: u64) + 1 < ts \<Longrightarrow> unat ts \<le> unat c + 1"
  using unat_succ_le [of c] by (simp add: word_less_nat_alt)

lemma wf_member:
  "queue_wf tm q \<Longrightarrow> n \<in> set (messages q) \<Longrightarrow>
   rb_linked (nodes q n) \<and>
   unat (bus1_queue_node_get_timestamp tm (nodes q n)) \<le> unat (clock q) + 1"
  by (simp add: queue_wf_def list_all_iff)

lemma add_erased:
  assumes "queue_wf tm q" and "node_known q node"
  shows "(if rb_linked (nodes q node) then rb_erase node (messages q) else messages q)
         = remove1 node (messages q)"
proof (cases "rb_linked (nodes q node)")
  case True
  then show ?thesis by (simp add: rb_erase_def)
next
  case False
  with wf_member [OF assms(1), of node] have "node \<notin> set (messages q)" by auto
  with False show ?thesis by (simp add: remove1_idem)
qed

lemma add_pass_wf:
  assumes wf: "queue_wf tm q" and fits: "ts AND tm = 0" and known: "node_known q node"
    and bound: "\<not> clock q + 1 < ts"
  shows "queue_wf tm (wake_if_readable r (add_link tm (add_uncover tm q node ts) node ts))"
proof -
  let ?q' = "wake_if_readable r (add_link tm (add_uncover tm q node ts) node ts)"
  let ?x = "(bus1_queue_node_set_timestamp tm
        (if rb_linked (nodes q node) then nodes q node else kref_get (nodes q node)) ts)
        \<lparr>rb_linked := True\<rparr>"
  have n: "nodes ?q' = (nodes q)(node := ?x)"
    by (simp add: add_link_nodes_uncover add_link_nodes)
  have m: "messages ?q' = rb_insert tm ((nodes q)(node := ?x)) node (remove1 node (messages q))"
    using add_erased [OF wf known]
    by (cases "rb_linked (nodes q node)")
      (simp_all add: add_link_nodes_uncover add_link_fields add_link_nodes)
  have c: "clock ?q' = clock q"
    by (simp add: add_link_nodes_uncover)
  have d: "distinct (messages q)" and s: "sorted_wrt (\<lambda>a b. \<not> node_less tm (nodes q) b a) (messages q)"
    and e: "clock q AND 1 = 0"
    using wf by (simp_all add: queue_wf_def queue_sorted_def)
  have new: "unat (bus1_queue_node_get_timestamp tm ?x) \<le> unat (clock q) + 1"
    using fits unat_bound [OF bound] by (simp add: get_set_timestamp_fits)
  have old: "rb_linked (nodes q n) \<and>
      unat (bus1_queue_node_get_timestamp tm (nodes q n)) \<le> unat (clock q) + 1"
    if "n \<in> set (remove1 node (messages q))" for n
    using that wf_member [OF wf, of n] by (auto dest: notin_set_remove1)
  show ?thesis
    unfolding queue_wf_def queue_sorted_def n m c
    using d s e new old
    by (auto simp: relink_distinct relink_sorted list_all_iff set_rb_insert)
qed

lemma add_cases:
  obtains (refused) "bus1_queue_add tm q node ts = q"
  | (pass) "ts \<noteq> 0" and "\<not> clock q + 1 < ts"
      and "(bus1_queue_node_get_timestamp tm (nodes q node) = 0) = (\<not> rb_linked (nodes q node))"
      and "rb_linked (nodes q node) \<Longrightarrow> bus1_queue_node_is_staging tm (nodes q node)"
      and "bus1_queue_add tm q node ts =
        wake_if_readable (bus1_queue_is_readable q) (add_link tm (add_uncover tm q node ts) node ts)"
proof (cases "ts = 0 \<or> clock q + 1 < ts \<or>
      (bus1_queue_node_get_timestamp tm (nodes q node) = 0) = rb_linked (nodes q node) \<or>
      bus1_queue_node_get_timestamp tm (nodes q node) \<noteq> 0 \<and>
        (bus1_queue_node_get_timestamp tm (nodes q node) AND 1 = 0 \<or>
         ts < bus1_queue_node_get_timestamp tm (nodes q node)) \<or>
      bus1_queue_node_get_timestamp tm (nodes q node) = ts")
  case True
  then have "bus1_queue_add tm q node ts = q" by (rule add_guards_fail)
  then show thesis by (rule refused)
next
  case False
  show thesis
  proof (rule pass)
    show "ts \<noteq> 0" "\<not> clock q + 1 < ts" using False by auto
    show "(bus1_queue_node_get_timestamp tm (nodes q node) = 0) = (\<not> rb_linked (nodes q node))"
      using False by auto
    show "bus1_queue_node_is_staging tm (nodes q node)" if "rb_linked (nodes q node)"
      using False that by (auto simp: bus1_queue_node_is_staging_def)
    show "bus1_queue_add tm q node ts =
        wake_if_readable (bus1_queue_is_readable q) (add_link tm (add_uncover tm q node ts) node ts)"
      using False by (intro add_guards_pass) auto
  qed
qed

lemma clock_raise_wf:
  assumes "queue_wf tm q" and "c AND 1 = 0" and "unat (clock q) \<le> unat c"
  shows "queue_wf tm (q\<lparr>clock := c\<rparr>)"
  using assms by (auto simp: queue_wf_def queue_sorted_def list_all_iff)

lemma clock_front_inv [simp]: "front_inv tm (q\<lparr>clock := c\<rparr>) = front_inv tm q"
  by (simp add: front_inv_def)

lemma wake_front_inv [simp]: "front_inv tm (wake_if_readable r q) = front_inv tm q"
  by (simp add: front_inv_def)

lemma unlinked_not_member:
  "queue_wf tm q \<Longrightarrow> \<not> rb_linked (nodes q node) \<Longrightarrow> node \<notin> set (messages q)"
  using wf_member [of tm q node] by auto

lemma add_fresh_rest:
  assumes "queue_wf tm q" and "front_inv tm q" and "\<not> rb_linked (nodes q node)"
  shows "front (add_uncover tm q node ts) =
         expected_front tm (nodes (add_link tm q node ts)) (messages q)"
  using assms unlinked_not_member [OF assms(1,3)]
  by (simp add: add_uncover_unlinked add_link_nodes expected_front_other_mem front_inv_def)

lemma sync_inv:
  assumes "queue_wf tm q" and "front_inv tm q"
  shows "queue_wf tm (snd (bus1_queue_sync q ts)) \<and> front_inv tm (snd (bus1_queue_sync q ts))"
proof -
  have e: "max (clock q) (ts + (ts AND 1)) AND 1 = 0"
    using assms(1) round_up_even [of ts] by (simp add: max_def queue_wf_def)
  have "unat (clock q) \<le> unat (max (clock q) (ts + (ts AND 1)))"
    by (simp add: unat_max)
  with clock_raise_wf [OF assms(1) e] assms(2) show ?thesis
    by (simp add: bus1_queue_sync_def Let_def)
qed

lemma stage_inv:
  assumes wf: "queue_wf tm q" and inv: "front_inv tm q" and ok: "op_ok tm q (Stage node ts)"
  shows "queue_wf tm (apply_op tm q (Stage node ts)) \<and> front_inv tm (apply_op tm q (Stage node ts))"
proof -
  let ?c = "fst (bus1_queue_sync q ts)"
  let ?q1 = "snd (bus1_queue_sync q ts)"
  have q1: "?q1 = q\<lparr>clock := ?c\<rparr>"
    by (simp add: bus1_queue_sync_def Let_def)
  from sync_inv [OF wf inv] have wf1: "queue_wf tm ?q1" and inv1: "front_inv tm ?q1"
    by simp_all
  have c: "clock ?q1 = ?c" and ge: "unat (clock q) \<le> unat ?c"
    by (simp_all add: bus1_queue_sync_def Let_def unat_max)
  have even: "?c AND 1 = 0"
    using wf1 c by (simp add: queue_wf_def)
  from ok have fits: "(?c + 1) AND tm = 0" and unlinked: "\<not> rb_linked (nodes ?q1 node)"
    by (simp_all add: q1)
  have known: "node_known ?q1 node"
    using unlinked by (simp add: node_known_def)
  have app: "apply_op tm q (Stage node ts) = bus1_queue_add tm ?q1 node (?c + 1)"
    by (simp add: bus1_queue_stage_def split_beta)
  show ?thesis
  proof (cases rule: add_cases [where tm = tm and q = ?q1 and node = node and ts = "?c + 1"])
    case refused
    with wf1 inv1 show ?thesis unfolding app by simp
  next
    case pass
    have w: "queue_wf tm (bus1_queue_add tm ?q1 node (?c + 1))"
      unfolding pass(5) using wf1 fits known pass(2) by (rule add_pass_wf)
    have f: "front_inv tm (bus1_queue_add tm ?q1 node (?c + 1))"
      unfolding pass(5)
    proof (rule add_front_inv [OF fits])
      assume left: "is_leftmost tm (nodes (add_link tm ?q1 node (?c + 1))) node
          (if rb_linked (nodes ?q1 node) then rb_erase node (messages ?q1) else messages ?q1)"
      show "front (add_uncover tm ?q1 node (?c + 1)) = None"
      proof (rule ccontr)
        assume "front (add_uncover tm ?q1 node (?c + 1)) \<noteq> None"
        then obtain h where h: "front ?q1 = Some h"
          using unlinked by (auto simp: add_uncover_unlinked)
        with inv1 obtain t where ms: "messages ?q1 = h # t"
          and committed: "\<not> bus1_queue_node_is_staging tm (nodes ?q1 h)"
          by (cases "messages ?q1") (auto simp: front_inv_def expected_front_def split: if_splits)
        have hn: "h \<noteq> node"
          using unlinked_not_member [OF wf1 unlinked] ms by auto
        from wf_member [OF wf1, of h] ms
        have "unat (bus1_queue_node_get_timestamp tm (nodes ?q1 h)) \<le> unat ?c + 1"
          by (simp add: c)
        then have le: "bus1_queue_node_get_timestamp tm (nodes ?q1 h) \<le> ?c + 1"
          by (simp add: word_le_nat_alt unat_even_succ [OF even])
        have ne: "bus1_queue_node_get_timestamp tm (nodes ?q1 h) \<noteq> ?c + 1"
          using committed even_word_succ(2) [OF even]
          by (auto simp: bus1_queue_node_is_staging_def)
        from left unlinked have "node_less tm (nodes (add_link tm ?q1 node (?c + 1))) node h"
          by (simp add: ms is_leftmost_iff)
        then show False
          using le ne hn fits unlinked
          by (auto simp: node_less_iff add_link_nodes get_set_timestamp_fits)
      qed
    next
      assume "\<not> is_leftmost tm (nodes (add_link tm ?q1 node (?c + 1))) node
          (if rb_linked (nodes ?q1 node) then rb_erase node (messages ?q1) else messages ?q1)"
      show "front (add_uncover tm ?q1 node (?c + 1)) =
          expected_front tm (nodes (add_link tm ?q1 node (?c + 1)))
            (if rb_linked (nodes ?q1 node) then rb_erase node (messages ?q1) else messages ?q1)"
        using add_fresh_rest [OF wf1 inv1 unlinked] unlinked by simp
    qed
    from w f show ?thesis unfolding app by simp
  qed
qed


lemma commit_unstaged_inv:
  assumes wf: "queue_wf tm q" and inv: "front_inv tm q" and ok: "op_ok tm q (Commit_unstaged node)"
  shows "queue_wf tm (apply_op tm q (Commit_unstaged node)) \<and>
         front_inv tm (apply_op tm q (Commit_unstaged node))"
proof (cases "rb_linked (nodes q node)")
  case True
  with wf inv show ?thesis
    by (simp add: bus1_queue_commit_unstaged_def bus1_queue_node_is_queued_def)
next
  case False
  let ?c = "clock q + 2"
  let ?q1 = "q\<lparr>clock := ?c\<rparr>"
  from ok have fits: "?c AND tm = 0" and room: "unat (clock q) + 2 < 2 ^ 64"
    by (simp_all add: bus1_queue_tick_def)
  have even: "?c AND 1 = 0"
    using wf by (simp add: queue_wf_def even_plus_2)
  have wf1: "queue_wf tm ?q1"
    using wf even by (rule clock_raise_wf) (simp add: unat_plus_2 [OF room])
  have inv1: "front_inv tm ?q1"
    using inv by simp
  have unlinked: "\<not> rb_linked (nodes ?q1 node)"
    using False by simp
  have known: "node_known ?q1 node"
    using False by (simp add: node_known_def)
  have app: "apply_op tm q (Commit_unstaged node) = bus1_queue_add tm ?q1 node ?c"
    using False
    by (simp add: bus1_queue_commit_unstaged_def bus1_queue_node_is_queued_def bus1_queue_tick_def)
  show ?thesis
  proof (cases rule: add_cases [where tm = tm and q = ?q1 and node = node and ts = ?c])
    case refused
    with wf1 inv1 show ?thesis unfolding app by simp
  next
    case pass
    have w: "queue_wf tm (bus1_queue_add tm ?q1 node ?c)"
      unfolding pass(5) using wf1 fits known pass(2) by (rule add_pass_wf)
    have f: "front_inv tm (bus1_queue_add tm ?q1 node ?c)"
      unfolding pass(5)
    proof (rule add_front_inv [OF fits])
      assume "?c AND 1 \<noteq> 0"
      with even show "front (add_uncover tm ?q1 node ?c) = None" by simp
    next
      show "front (add_uncover tm ?q1 node ?c) =
          expected_front tm (nodes (add_link tm ?q1 node ?c))
            (if rb_linked (nodes ?q1 node) then rb_erase node (messages ?q1) else messages ?q1)"
        using add_fresh_rest [OF wf1 inv1 unlinked] unlinked by simp
    qed
    from w f show ?thesis unfolding app by simp
  qed
qed

lemma commit_staged_inv:
  assumes wf: "queue_wf tm q" and inv: "front_inv tm q" and ok: "op_ok tm q (Commit_staged node ts)"
  shows "queue_wf tm (apply_op tm q (Commit_staged node ts)) \<and>
         front_inv tm (apply_op tm q (Commit_staged node ts))"
proof (cases "rb_linked (nodes q node)")
  case False
  with wf inv show ?thesis
    by (simp add: bus1_queue_commit_staged_def bus1_queue_node_is_queued_def)
next
  case True
  from ok have fits: "ts AND tm = 0" and even: "ts AND 1 = 0" and known: "node_known q node"
    and twin: "no_twin_next tm q node ts"
    by simp_all
  from known True have mem: "node \<in> set (messages q)"
    by (simp add: node_known_def)
  have app: "apply_op tm q (Commit_staged node ts) = bus1_queue_add tm q node ts"
    using True by (simp add: bus1_queue_commit_staged_def bus1_queue_node_is_queued_def)
  show ?thesis
  proof (cases rule: add_cases [where tm = tm and q = q and node = node and ts = ts])
    case refused
    with wf inv show ?thesis unfolding app by simp
  next
    case pass
    have w: "queue_wf tm (bus1_queue_add tm q node ts)"
      unfolding pass(5) using wf fits known pass(2) by (rule add_pass_wf)
    have d: "distinct (messages q)"
      using wf by (simp add: queue_wf_def)
    have f: "front_inv tm (bus1_queue_add tm q node ts)"
      unfolding pass(5)
    proof (rule add_front_inv [OF fits])
      assume "ts AND 1 \<noteq> 0"
      with even show "front (add_uncover tm q node ts) = None" by simp
    next
      assume nl: "\<not> is_leftmost tm (nodes (add_link tm q node ts)) node
          (if rb_linked (nodes q node) then rb_erase node (messages q) else messages q)"
      have "front (add_uncover tm q node ts) =
          expected_front tm (nodes (add_link tm q node ts)) (rb_erase node (messages q))"
      proof (rule commit_uncover_front [OF inv d mem pass(4) [OF True] True twin])
        show "bus1_queue_node_get_timestamp tm (nodes (add_link tm q node ts) node) = ts"
          using fits by (simp add: add_link_nodes get_set_timestamp_fits)
        show "sender (nodes (add_link tm q node ts) node) = sender (nodes q node)"
          using True by (simp add: add_link_nodes)
        show "nodes (add_link tm q node ts) m = nodes q m" if "m \<noteq> node" for m
          using that by (simp add: add_link_nodes)
        show "\<not> is_leftmost tm (nodes (add_link tm q node ts)) node (rb_erase node (messages q))"
          using nl True by simp
      qed
      then show "front (add_uncover tm q node ts) =
          expected_front tm (nodes (add_link tm q node ts))
            (if rb_linked (nodes q node) then rb_erase node (messages q) else messages q)"
        using True by simp
    qed
    from w f show ?thesis unfolding app by simp
  qed
qed

lemma remove_inv:
  assumes wf: "queue_wf tm q" and inv: "front_inv tm q" and ok: "op_ok tm q (Remove nodep)"
  shows "queue_wf tm (apply_op tm q (Remove nodep)) \<and> front_inv tm (apply_op tm q (Remove nodep))"
proof (cases nodep)
  case None
  with wf inv show ?thesis by (simp add: bus1_queue_remove_def)
next
  case (Some node)
  show ?thesis
  proof (cases "rb_linked (nodes q node)")
    case False
    with wf inv Some show ?thesis by (simp add: bus1_queue_remove_def)
  next
    case True
    with ok Some have mem: "node \<in> set (messages q)"
      by (simp add: node_known_def)
    then obtain h t where ms: "messages q = h # t"
      by (cases "messages q") auto
    have d: "distinct (messages q)" and s: "sorted_wrt (\<lambda>a b. \<not> node_less tm (nodes q) b a) (messages q)"
      and e: "clock q AND 1 = 0"
      using wf by (simp_all add: queue_wf_def queue_sorted_def)
    let ?x = "kref_put ((nodes q node)\<lparr>rb_linked := False\<rparr>)"
    let ?f = "if rb_prev (messages q) node = None then remove_front tm q node else front q"
    let ?q2 = "q\<lparr>front := ?f, messages := remove1 node (messages q), nodes := (nodes q)(node := ?x)\<rparr>"
    have app: "apply_op tm q (Remove nodep) = wake_if_readable (bus1_queue_is_readable q) ?q2"
      using True Some by (simp add: bus1_queue_remove_def Let_def rb_erase_def)
    have notin: "node \<notin> set (remove1 node (messages q))"
      using d by simp
    have old: "rb_linked (nodes q n) \<and>
        unat (bus1_queue_node_get_timestamp tm (nodes q n)) \<le> unat (clock q) + 1"
      if "n \<in> set (remove1 node (messages q))" for n
      using that wf_member [OF wf, of n] by (auto dest: notin_set_remove1)
    have w: "queue_wf tm ?q2"
      unfolding queue_wf_def queue_sorted_def
      using d e old notin sorted_other_mem [OF sorted_wrt_remove1 [OF s] notin]
      by (auto simp: list_all_iff)
    have f: "front_inv tm ?q2"
    proof (cases "node = h")
      case True
      then have "rb_prev (messages q) node = None"
        using mem by (simp add: rb_prev_None_iff ms)
      moreover have "remove_front tm q node = expected_front tm ((nodes q)(node := ?x)) t"
        using True d
        by (cases t) (auto simp: remove_front_def ms expected_front_def)
      ultimately show ?thesis
        using True by (simp add: front_inv_def ms)
    next
      case False
      then have "rb_prev (messages q) node \<noteq> None"
        using mem by (simp add: rb_prev_None_iff ms)
      then show ?thesis
        using False inv by (auto simp: front_inv_def ms expected_front_def)
    qed
    from w f show ?thesis unfolding app by (simp add: queue_wf_def queue_sorted_def)
  qed
qed

lemma flush_inv:
  assumes "queue_wf tm q"
  shows "queue_wf tm (apply_op tm q Flush) \<and> front_inv tm (apply_op tm q Flush)"
  using assms
  by (simp add: bus1_queue_flush_def split_beta queue_wf_def queue_sorted_def front_inv_def
      expected_front_def)

lemma apply_op_inv:
  assumes "queue_wf tm q" and "front_inv tm q" and "op_ok tm q op"
  shows "queue_wf tm (apply_op tm q op) \<and> front_inv tm (apply_op tm q op)"
proof (cases op)
  case (Stage node ts)
  with assms show ?thesis using stage_inv by blast
next
  case (Commit_staged node ts)
  with assms show ?thesis using commit_staged_inv by blast
next
  case (Commit_unstaged node)
  with assms show ?thesis using commit_unstaged_inv by blast
next
  case (Remove nodep)
  with assms show ?thesis using remove_inv by blast
next
  case Flush
  with assms show ?thesis using flush_inv by blast
next
  case (Sync ts)
  with assms sync_inv [of tm q ts] show ?thesis by simp
qed

lemma init_inv: "queue_wf tm (bus1_queue_init mem) \<and> front_inv tm (bus1_queue_init mem)"
  by (simp add: bus1_queue_init_def queue_wf_def queue_sorted_def front_inv_def expected_front_def)

text \<open>
  Apart from that case the source keeps the front. From a queue that is well formed and
  whose \<open>front\<close> is right (the initialised queue is), every sequence of stage, commit
  of a staged node, commit without staging, remove, flush and sync leaves the queue well
  formed (each node once, in order, linked, no timestamp ahead of the clock by more than
  the stage bit, clock even) and \<open>front\<close> right: the first entry of the tree if that
  entry is committed, NULL if it is staging or the tree is empty. The operations are
  used as the source documents (\<open>ops_ok\<close>), and no staged node is committed with the
  timestamp and sender of the entry that follows it.
\<close>

theorem front_kept:
  "queue_wf tm q \<Longrightarrow> front_inv tm q \<Longrightarrow> ops_ok tm q ops \<Longrightarrow>
   queue_wf tm (run_ops tm q ops) \<and> front_inv tm (run_ops tm q ops)"
proof (induction ops arbitrary: q)
  case Nil
  then show ?case by simp
next
  case (Cons op ops)
  from Cons.prems have "op_ok tm q op" and rest: "ops_ok tm (apply_op tm q op) ops"
    by simp_all
  with Cons.prems apply_op_inv [of tm q op]
  have "queue_wf tm (apply_op tm q op)" and "front_inv tm (apply_op tm q op)"
    by simp_all
  with rest Cons.IH [of "apply_op tm q op"] show ?case
    by (simp del: apply_op.simps)
qed


theorem front_kept_witness:
  "run_ops ex_tm (bus1_queue_init ex_mem)
     [Stage 2 0, Commit_unstaged 3, Sync 4, Commit_staged 2 4] = ex_s3 \<and>
   queue_wf ex_tm ex_s3 \<and> front_inv ex_tm ex_s3 \<and> front ex_s3 = Some 3"
proof -
  let ?ops = "[Stage 2 0, Commit_unstaged 3, Sync 4, Commit_staged 2 4]"
  have run: "run_ops ex_tm (bus1_queue_init ex_mem) ?ops = ex_s3"
    by (simp add: ex_a1_step ex_s1_step ex_s2_step ex_s3_step)
  have ok: "ops_ok ex_tm (bus1_queue_init ex_mem) ?ops"
    by (simp add: ex_a1_step ex_s1_step ex_s2_step ex_s3_step)
      (simp add: bus1_queue_sync_def bus1_queue_tick_def bus1_queue_init_def ex_a1_def ex_s2_def
        ex_defs node_known_def no_twin_next_def bus1_queue_node_compare_def
        bus1_queue_compare_def bus1_queue_node_get_timestamp_def)
  have start: "queue_wf ex_tm (bus1_queue_init ex_mem)" "front_inv ex_tm (bus1_queue_init ex_mem)"
    using init_inv [of ex_tm ex_mem] by simp_all
  have "front ex_s3 = Some 3"
    by (simp add: ex_s3_def)
  with front_kept [OF start ok] run show ?thesis
    by simp
qed

end
